theory Spec2Isabelle
  imports Main "HOL-Library.AList"
begin

section \<open>Python values\<close>

text \<open>
  \<^verbatim>\<open>bytes\<close> is a list of 8-bit characters; \<^verbatim>\<open>str\<close> is a list of Unicode code points
  (\<open>len\<close> counts code points). A literal of the source is written \<open>lit ''...''\<close>.
\<close>

type_synonym bytes = string
type_synonym ustr = "nat list"

definition lit :: "string \<Rightarrow> ustr" where
  "lit s = map of_char s"

datatype py_error =
    ZeroDivisionError
  | ParseError
  | LookupError
  | ValueError
  | KeyError
  | UnicodeEncodeError

text \<open>Truthiness of an \<^verbatim>\<open>Optional[str]\<close>: \<^verbatim>\<open>None\<close> and \<^verbatim>\<open>''\<close> are false.\<close>

fun truthy :: "'a list option \<Rightarrow> bool" where
  "truthy None = False"
| "truthy (Some s) = (s \<noteq> [])"

subsection \<open>String operations\<close>

text \<open>\<^verbatim>\<open>str.isspace\<close>, which \<^verbatim>\<open>str.strip()\<close> and the pattern \<^verbatim>\<open>\s\<close> share.\<close>

definition is_space :: "nat \<Rightarrow> bool" where
  "is_space c \<longleftrightarrow>
     (9 \<le> c \<and> c \<le> 13) \<or> (28 \<le> c \<and> c \<le> 32) \<or> c = 133 \<or> c = 160 \<or> c = 5760 \<or>
     (8192 \<le> c \<and> c \<le> 8202) \<or> c = 8232 \<or> c = 8233 \<or> c = 8239 \<or> c = 8287 \<or> c = 12288"

definition strip :: "ustr \<Rightarrow> ustr" where
  "strip s = rev (dropWhile is_space (rev (dropWhile is_space s)))"

fun startswith :: "'a list \<Rightarrow> 'a list \<Rightarrow> bool" where
  "startswith s [] = True"
| "startswith [] (p # ps) = False"
| "startswith (x # xs) (p # ps) = (x = p \<and> startswith xs ps)"

definition endswith :: "'a list \<Rightarrow> 'a list \<Rightarrow> bool" where
  "endswith s suf = startswith (rev s) (rev suf)"

text \<open>\<^verbatim>\<open>sub in s\<close>.\<close>

fun str_in :: "'a list \<Rightarrow> 'a list \<Rightarrow> bool" where
  "str_in sub [] = (sub = [])"
| "str_in sub (x # xs) = (startswith (x # xs) sub \<or> str_in sub xs)"

text \<open>\<^verbatim>\<open>s.split(c)\<close> for a separator of one character: never empty.\<close>

fun split_on :: "'a \<Rightarrow> 'a list \<Rightarrow> 'a list list" where
  "split_on c [] = [[]]"
| "split_on c (x # xs) =
     (let r = split_on c xs in if x = c then [] # r else (x # hd r) # tl r)"

fun join :: "'a list \<Rightarrow> 'a list list \<Rightarrow> 'a list" where
  "join sep [] = []"
| "join sep [x] = x"
| "join sep (x # y # ys) = x @ sep @ join sep (y # ys)"

text \<open>\<^verbatim>\<open>s.replace(old, new, 1)\<close>: the leftmost occurrence only.\<close>

fun replace_first :: "'a list \<Rightarrow> 'a list \<Rightarrow> 'a list \<Rightarrow> 'a list" where
  "replace_first old new [] = (if old = [] then new else [])"
| "replace_first old new (x # xs) =
     (if startswith (x # xs) old then new @ drop (length old) (x # xs)
      else x # replace_first old new xs)"

text \<open>
  \<^verbatim>\<open>s.replace(old, new)\<close>: every occurrence, left to right, without overlap. (With an
  empty \<open>old\<close> Python puts \<open>new\<close> around every character.)
\<close>

fun replace_from :: "'a list \<Rightarrow> 'a list \<Rightarrow> 'a list \<Rightarrow> 'a list" where
  "replace_from old new [] = []"
| "replace_from old new (x # xs) =
     (if startswith (x # xs) old then new @ replace_from old new (drop (length old - 1) xs)
      else x # replace_from old new xs)"

definition replace_all :: "'a list \<Rightarrow> 'a list \<Rightarrow> 'a list \<Rightarrow> 'a list" where
  "replace_all old new s =
     (if old = [] then new @ concat (map (\<lambda>x. x # new) s) else replace_from old new s)"

text \<open>\<^verbatim>\<open>os.path.basename\<close> of \<^verbatim>\<open>posixpath\<close>: what follows the last slash.\<close>

definition basename :: "ustr \<Rightarrow> ustr" where
  "basename p = rev (takeWhile (\<lambda>c. c \<noteq> 47) (rev p))"

subsection \<open>UTF-8\<close>

text \<open>
  \<open>utf8_step\<close> reads one well-formed sequence at the head of a list of byte values and
  gives its code point and its length: shortest form only, no surrogate, nothing above
  U+10FFFF, as \<^verbatim>\<open>bytes.decode('utf-8')\<close> accepts.
\<close>

definition cont :: "nat \<Rightarrow> bool" where
  "cont b \<longleftrightarrow> 128 \<le> b \<and> b \<le> 191"

definition utf8_step :: "nat list \<Rightarrow> (nat \<times> nat) option" where
  "utf8_step bs =
     (case bs of
        [] \<Rightarrow> None
      | b0 # r \<Rightarrow>
          if b0 < 128 then Some (b0, 1)
          else if 194 \<le> b0 \<and> b0 \<le> 223 then
            (case r of
               b1 # _ \<Rightarrow> if cont b1 then Some ((b0 - 192) * 64 + (b1 - 128), 2) else None
             | _ \<Rightarrow> None)
          else if 224 \<le> b0 \<and> b0 \<le> 239 then
            (case r of
               b1 # b2 # _ \<Rightarrow>
                 if (if b0 = 224 then 160 else 128) \<le> b1 \<and> b1 \<le> (if b0 = 237 then 159 else 191)
                    \<and> cont b2
                 then Some (((b0 - 224) * 64 + (b1 - 128)) * 64 + (b2 - 128), 3) else None
             | _ \<Rightarrow> None)
          else if 240 \<le> b0 \<and> b0 \<le> 244 then
            (case r of
               b1 # b2 # b3 # _ \<Rightarrow>
                 if (if b0 = 240 then 144 else 128) \<le> b1 \<and> b1 \<le> (if b0 = 244 then 143 else 191)
                    \<and> cont b2 \<and> cont b3
                 then Some ((((b0 - 240) * 64 + (b1 - 128)) * 64 + (b2 - 128)) * 64 + (b3 - 128), 4)
                 else None
             | _ \<Rightarrow> None)
          else None)"

text \<open>Strict decoding: \<open>None\<close> is \<^verbatim>\<open>UnicodeDecodeError\<close>.\<close>

fun decode_values :: "nat list \<Rightarrow> ustr option" where
  "decode_values [] = Some []"
| "decode_values (b # bs) =
     (case utf8_step (b # bs) of
        None \<Rightarrow> None
      | Some (cp, n) \<Rightarrow> map_option ((#) cp) (decode_values (drop (n - 1) bs)))"

definition utf8_decode :: "bytes \<Rightarrow> ustr option" where
  "utf8_decode b = decode_values (map of_char b)"

text \<open>
  \<^verbatim>\<open>decode('utf-8', errors='ignore')\<close>: a byte that starts no well-formed sequence is
  passed over. (The bytes of an ill-formed sequence after its first are continuation
  bytes, which start no sequence either.)
\<close>

fun decode_values_ignore :: "nat list \<Rightarrow> ustr" where
  "decode_values_ignore [] = []"
| "decode_values_ignore (b # bs) =
     (case utf8_step (b # bs) of
        None \<Rightarrow> decode_values_ignore bs
      | Some (cp, n) \<Rightarrow> cp # decode_values_ignore (drop (n - 1) bs))"

definition utf8_decode_ignore :: "bytes \<Rightarrow> ustr" where
  "utf8_decode_ignore b = decode_values_ignore (map of_char b)"

text \<open>Encoding one code point; a surrogate cannot be encoded.\<close>

definition encode_cp :: "nat \<Rightarrow> nat list option" where
  "encode_cp cp =
     (if cp < 128 then Some [cp]
      else if cp < 2048 then Some [192 + cp div 64, 128 + cp mod 64]
      else if cp < 65536 then
        (if 55296 \<le> cp \<and> cp \<le> 57343 then None
         else Some [224 + cp div 4096, 128 + cp div 64 mod 64, 128 + cp mod 64])
      else if cp < 1114112 then
        Some [240 + cp div 262144, 128 + cp div 4096 mod 64, 128 + cp div 64 mod 64,
              128 + cp mod 64]
      else None)"

fun encode_values :: "ustr \<Rightarrow> nat list option" where
  "encode_values [] = Some []"
| "encode_values (c # cs) =
     (case encode_cp c of
        None \<Rightarrow> None
      | Some bs \<Rightarrow> map_option ((@) bs) (encode_values cs))"

text \<open>\<^verbatim>\<open>str.encode('utf-8')\<close>: \<open>Inl UnicodeEncodeError\<close> on a surrogate.\<close>

definition utf8_encode :: "ustr \<Rightarrow> py_error + bytes" where
  "utf8_encode s =
     (case encode_values s of
        None \<Rightarrow> Inl UnicodeEncodeError
      | Some bs \<Rightarrow> Inr (map char_of bs))"

text \<open>The code points a \<^verbatim>\<open>str\<close> built by decoding holds: Unicode scalar values.\<close>

definition scalar :: "nat \<Rightarrow> bool" where
  "scalar c \<longleftrightarrow> c < 55296 \<or> (57343 < c \<and> c < 1114112)"

subsection \<open>Regular expressions\<close>

text \<open>
  The patterns of the source are sequences of one-character classes, each with a
  quantifier, and at most one of them is the capture group. Matching follows the
  backtracking order of \<^verbatim>\<open>re\<close>: a greedy quantifier tries the longest repetition first and
  gives characters back one at a time. \<open>Digit\<close> carries the table of Unicode decimal
  digits (\<^verbatim>\<open>\d\<close> on a \<^verbatim>\<open>str\<close> pattern), which is data of the interpreter.
\<close>

datatype cclass =
    Ch nat
  | Space
  | Digit "nat \<Rightarrow> bool"
  | NoneOf "nat list"
  | OneOf "nat list"

datatype quant = Once | Opt | Star | Plus

datatype ritem = Item cclass quant bool

fun cmatch :: "cclass \<Rightarrow> nat \<Rightarrow> bool" where
  "cmatch (Ch a) c = (c = a)"
| "cmatch Space c = is_space c"
| "cmatch (Digit isdec) c = isdec c"
| "cmatch (NoneOf cs) c = (c \<notin> set cs)"
| "cmatch (OneOf cs) c = (c \<in> set cs)"

text \<open>The repetition counts a quantifier tries, in order, when \<open>k\<close> characters match.\<close>

fun counts :: "quant \<Rightarrow> nat \<Rightarrow> nat list" where
  "counts Once k = (if 1 \<le> k then [1] else [])"
| "counts Opt k = (if 1 \<le> k then [1, 0] else [0])"
| "counts Star k = rev [0..<Suc k]"
| "counts Plus k = rev [1..<Suc k]"

text \<open>
  A match at the head of \<open>s\<close>: the text of the group (if any) and the length matched.
  \<open>try_counts\<close> goes through the repetition counts of the item just read, in order, and
  takes the first one after which the rest of the pattern matches.
\<close>

fun re_match :: "ritem list \<Rightarrow> ustr \<Rightarrow> (ustr option \<times> nat) option"
  and try_counts :: "bool \<Rightarrow> ritem list \<Rightarrow> nat list \<Rightarrow> ustr \<Rightarrow> (ustr option \<times> nat) option" where
  "re_match [] s = Some (None, 0)"
| "re_match (Item cls q cap # its) s =
     try_counts cap its (counts q (length (takeWhile (cmatch cls) s))) s"
| "try_counts cap its [] s = None"
| "try_counts cap its (n # ns) s =
     (case re_match its (drop n s) of
        None \<Rightarrow> try_counts cap its ns s
      | Some (g, m) \<Rightarrow> Some (if cap then Some (take n s) else g, n + m))"

text \<open>\<^verbatim>\<open>re.search\<close>: the leftmost position with a match.\<close>

fun re_search :: "ritem list \<Rightarrow> ustr \<Rightarrow> (ustr option \<times> nat) option" where
  "re_search its [] = re_match its []"
| "re_search its (x # xs) =
     (case re_match its (x # xs) of
        Some r \<Rightarrow> Some r
      | None \<Rightarrow> re_search its xs)"

text \<open>\<^verbatim>\<open>match.group(1)\<close> of a search, \<open>None\<close> when there is no match.\<close>

definition search_group :: "ritem list \<Rightarrow> ustr \<Rightarrow> ustr option" where
  "search_group its s = (case re_search its s of Some (Some g, _) \<Rightarrow> Some g | _ \<Rightarrow> None)"

text \<open>
  \<^verbatim>\<open>re.sub\<close> with a replacement free of escapes, for a pattern that matches no empty
  string: every match, left to right, without overlap.
\<close>

fun re_sub :: "ritem list \<Rightarrow> ustr \<Rightarrow> ustr \<Rightarrow> ustr" where
  "re_sub its repl [] = []"
| "re_sub its repl (x # xs) =
     (case re_match its (x # xs) of
        Some (_, n) \<Rightarrow> repl @ re_sub its repl (drop (n - 1) xs)
      | None \<Rightarrow> x # re_sub its repl xs)"

text \<open>An item whose group, when it is one, holds at least one character.\<close>

definition group_nonempty :: "ritem \<Rightarrow> bool" where
  "group_nonempty it = (case it of Item cls q cap \<Rightarrow> cap \<longrightarrow> q = Plus \<or> q = Once)"

text \<open>A literal stretch of a pattern.\<close>

definition chars :: "string \<Rightarrow> ritem list" where
  "chars s = map (\<lambda>c. Item (Ch (of_char c)) Once False) s"

section \<open>Stylesheets\<close>

text \<open>
  \<^verbatim>\<open>_get_css_rule_key\<close>. The pattern is
  \<^verbatim>\<open>font-family:\s*["\']?([^"\';}]+)\<close>; 34 and 39 are the two quotes, 59 the semicolon, 125
  the closing brace, 123 the opening one.
\<close>

definition font_family_re :: "ritem list" where
  "font_family_re =
     chars ''font-family:'' @
     [Item Space Star False, Item (OneOf [34, 39]) Opt False, Item (NoneOf [34, 39, 59, 125]) Plus True]"

definition get_css_rule_key :: "ustr \<Rightarrow> ustr option" where
  "get_css_rule_key rule_text =
     (let selector = strip (hd (split_on 123 rule_text)) in
      if selector = lit ''@font-face'' then
        (case search_group font_family_re rule_text of
           Some g \<Rightarrow> Some (lit ''@font-face:'' @ strip g)
         | None \<Rightarrow> None)
      else if selector \<noteq> [] then Some selector else None)"

text \<open>
  The two loops of the merge branch of \<^verbatim>\<open>_download_epub_in_parts\<close> over the chunks of
  \<^verbatim>\<open>split('}')\<close>. The dictionary \<^verbatim>\<open>existing_rules\<close> keeps insertion order, which
  \<^verbatim>\<open>values()\<close> follows: an association list, updated in place.
\<close>

definition existing_rule_step :: "(ustr \<times> ustr) list \<Rightarrow> ustr \<Rightarrow> (ustr \<times> ustr) list" where
  "existing_rule_step existing_rules rule =
     (if str_in (lit ''{'') rule then
        (let rule_key = get_css_rule_key rule in
         if truthy rule_key then AList.update (the rule_key) (strip rule @ lit ''}'') existing_rules
         else existing_rules)
      else existing_rules)"

definition new_rule_step :: "(ustr \<times> ustr) list \<Rightarrow> ustr \<Rightarrow> (ustr \<times> ustr) list" where
  "new_rule_step existing_rules rule =
     (if str_in (lit ''{'') rule then
        (let rule_key = get_css_rule_key rule in
         if truthy rule_key then
           (let new_rule = strip rule @ lit ''}'' in
            case map_of existing_rules (the rule_key) of
              None \<Rightarrow> AList.update (the rule_key) new_rule existing_rules
            | Some old \<Rightarrow>
                if length new_rule > length old
                then AList.update (the rule_key) new_rule existing_rules
                else existing_rules)
         else existing_rules)
      else existing_rules)"

definition merged_rules :: "ustr \<Rightarrow> ustr \<Rightarrow> (ustr \<times> ustr) list" where
  "merged_rules existing_str new_str =
     foldl new_rule_step
       (foldl existing_rule_step [] (split_on 125 existing_str))
       (split_on 125 new_str)"

definition merge_css_text :: "ustr \<Rightarrow> ustr \<Rightarrow> ustr" where
  "merge_css_text existing_str new_str = join [10] (map snd (merged_rules existing_str new_str))"

definition merge_css :: "bytes \<Rightarrow> bytes \<Rightarrow> py_error + bytes" where
  "merge_css existing content =
     utf8_encode (merge_css_text (utf8_decode_ignore existing) (utf8_decode_ignore content))"


definition keyed :: "ustr \<Rightarrow> (ustr \<times> ustr) set" where
  "keyed r = (if str_in (lit ''{'') r then
                (case get_css_rule_key r of Some k \<Rightarrow> {(k, strip r @ lit ''}'')} | None \<Rightarrow> {})
              else {})"



section \<open>Fixed-layout page repair\<close>

text \<open>
  \<^verbatim>\<open>_fix_fixed_layout_page\<close>. The patterns are \<^verbatim>\<open>body\s*\{[^}]*width:\s*(\d+)px\<close>, the same for
  \<^verbatim>\<open>height:\<close>, and \<^verbatim>\<open>style="width:px;\s*height:px;"\<close>.
\<close>

definition body_dim_re :: "(nat \<Rightarrow> bool) \<Rightarrow> string \<Rightarrow> ritem list" where
  "body_dim_re isdec name =
     chars ''body'' @
     [Item Space Star False, Item (Ch 123) Once False, Item (NoneOf [125]) Star False] @
     chars name @
     [Item Space Star False, Item (Digit isdec) Plus True] @
     chars ''px''"

definition broken_style_re :: "ritem list" where
  \<open>broken_style_re =
     chars ''style="width:px;'' @ [Item Space Star False] @ chars ''height:px;"''\<close>

definition viewport_tag :: "ustr \<Rightarrow> ustr \<Rightarrow> ustr" where
  \<open>viewport_tag width height =
     lit ''<meta name="viewport" content="width='' @ width @ lit '', height='' @ height @
     lit ''"/>''\<close>

definition fixed_style :: "ustr \<Rightarrow> ustr \<Rightarrow> ustr" where
  \<open>fixed_style width height =
     lit ''style="width:'' @ width @ lit ''px; height:'' @ height @ lit ''px;"''\<close>

text \<open>The dimensions of the stylesheet: \<open>(None, None)\<close> without one, or when it does not decode.\<close>

definition css_dimensions :: "(nat \<Rightarrow> bool) \<Rightarrow> bytes option \<Rightarrow> ustr option \<times> ustr option" where
  "css_dimensions isdec css_content =
     (if truthy css_content then
        (case utf8_decode (the css_content) of
           None \<Rightarrow> (None, None)
         | Some css_str \<Rightarrow>
             (search_group (body_dim_re isdec ''width:'') css_str,
              search_group (body_dim_re isdec ''height:'') css_str))
      else (None, None))"

definition add_viewport :: "ustr \<Rightarrow> ustr \<Rightarrow> ustr \<Rightarrow> ustr" where
  \<open>add_viewport width height html_str =
     (if \<not> str_in (lit ''name="viewport"'') html_str \<and> str_in (lit ''<head>'') html_str
      then replace_first (lit ''<head>'')
             (lit ''<head>'' @ [10] @ lit ''    '' @ viewport_tag width height) html_str
      else html_str)\<close>

definition fix_fixed_layout_page ::
  "(nat \<Rightarrow> bool) \<Rightarrow> bytes \<Rightarrow> bytes option \<Rightarrow> py_error + bytes" where
  "fix_fixed_layout_page isdec html_content css_content =
     (case utf8_decode html_content of
        None \<Rightarrow> Inr html_content
      | Some html_str \<Rightarrow>
          (case css_dimensions isdec css_content of (width, height) \<Rightarrow>
             if \<not> truthy width \<or> \<not> truthy height then Inr html_content
             else utf8_encode
                    (re_sub broken_style_re (fixed_style (the width) (the height))
                       (add_viewport (the width) (the height) html_str))))"

section \<open>Package documents\<close>

text \<open>
  An \<^verbatim>\<open>xml.etree.ElementTree.Element\<close>: tag, attributes, text, children. The parser
  itself, \<^verbatim>\<open>ET.fromstring\<close>, belongs to the interpreter and is a parameter: it returns the
  root or raises.
\<close>

datatype element =
  Element (el_tag: ustr) (el_attrib: "(ustr \<times> ustr) list") (el_text: "ustr option")
    (el_children: "element list")

text \<open>\<^verbatim>\<open>Element.iter()\<close>: the element, then its descendants, in document order.\<close>

fun iter :: "element \<Rightarrow> element list" where
  "iter (Element t a x cs) = Element t a x cs # concat (map iter cs)"

definition el_get :: "element \<Rightarrow> ustr \<Rightarrow> ustr option" where
  "el_get e k = map_of (el_attrib e) k"

text \<open>\<^verbatim>\<open>e.get(k, '')\<close>.\<close>

definition el_get_str :: "element \<Rightarrow> ustr \<Rightarrow> ustr" where
  "el_get_str e k = (case el_get e k of None \<Rightarrow> [] | Some v \<Rightarrow> v)"

text \<open>\<^verbatim>\<open>root.find(tag)\<close>: the first child with that tag.\<close>

definition find_child :: "element \<Rightarrow> ustr \<Rightarrow> element option" where
  "find_child root t = List.find (\<lambda>e. el_tag e = t) (el_children root)"

text \<open>
  \<^verbatim>\<open>root.find('opf:x', ns)\<close> and, when that finds nothing,
  \<^verbatim>\<open>root.find('{http://www.idpf.org/2007/opf}x')\<close>: both look for the same qualified tag.
\<close>

definition opf_tag :: "string \<Rightarrow> ustr" where
  "opf_tag name = lit ''{http://www.idpf.org/2007/opf}'' @ lit name"

definition find_opf :: "element \<Rightarrow> string \<Rightarrow> element option" where
  "find_opf root name =
     (case find_child root (opf_tag name) of
        None \<Rightarrow> find_child root (opf_tag name)
      | Some e \<Rightarrow> Some e)"

record opf_result =
  rendition_layout :: "ustr option"
  rendition_spread :: "ustr option"
  rendition_orientation :: "ustr option"
  cover_id :: "ustr option"
  cover_href :: "ustr option"
  spine_properties :: "(ustr \<times> ustr) list"

definition unset_result :: opf_result where
  "unset_result =
     \<lparr>rendition_layout = None, rendition_spread = None, rendition_orientation = None,
      cover_id = None, cover_href = None, spine_properties = []\<rparr>"

text \<open>The body of the loop over \<^verbatim>\<open>metadata.iter()\<close>.\<close>

definition meta_step :: "opf_result \<Rightarrow> element \<Rightarrow> opf_result" where
  "meta_step result meta =
     (if endswith (el_tag meta) (lit ''}meta'') \<or> el_tag meta = lit ''meta'' then
        (let prop = el_get_str meta (lit ''property'');
             result1 =
               (if prop = lit ''rendition:layout'' then result\<lparr>rendition_layout := el_text meta\<rparr>
                else if prop = lit ''rendition:spread'' then result\<lparr>rendition_spread := el_text meta\<rparr>
                else if prop = lit ''rendition:orientation''
                then result\<lparr>rendition_orientation := el_text meta\<rparr>
                else result);
             name = el_get_str meta (lit ''name'')
         in if name = lit ''cover'' then result1\<lparr>cover_id := el_get meta (lit ''content'')\<rparr>
            else result1)
      else result)"

text \<open>
  The body of the loop over \<^verbatim>\<open>manifest.iter()\<close>, in two parts: the cover, and the
  dictionary \<^verbatim>\<open>id_to_href\<close>.
\<close>

definition cover_step :: "opf_result \<Rightarrow> element \<Rightarrow> opf_result" where
  "cover_step result item =
     (let item_id = el_get item (lit ''id'');
          item_href = el_get item (lit ''href'');
          result1 =
            (if truthy (cover_id result) \<and> item_id = cover_id result \<and> \<not> truthy (cover_href result)
             then result\<lparr>cover_href := item_href\<rparr> else result);
          props = el_get_str item (lit ''properties'')
      in if str_in (lit ''cover-image'') props \<and> \<not> truthy (cover_href result1)
         then result1\<lparr>cover_href := item_href, cover_id := item_id\<rparr>
         else result1)"

definition href_step :: "(ustr \<rightharpoonup> ustr) \<Rightarrow> element \<Rightarrow> (ustr \<rightharpoonup> ustr)" where
  "href_step id_to_href item =
     (let item_id = el_get item (lit ''id'');
          item_href = el_get item (lit ''href'')
      in if truthy item_id \<and> truthy item_href then id_to_href(the item_id \<mapsto> the item_href)
         else id_to_href)"

definition manifest_step ::
  "opf_result \<times> (ustr \<rightharpoonup> ustr) \<Rightarrow> element \<Rightarrow> opf_result \<times> (ustr \<rightharpoonup> ustr)" where
  "manifest_step st item = (cover_step (fst st) item, href_step (snd st) item)"

text \<open>The body of the loop over \<^verbatim>\<open>spine.iter()\<close>.\<close>

definition spine_step :: "(ustr \<rightharpoonup> ustr) \<Rightarrow> opf_result \<Rightarrow> element \<Rightarrow> opf_result" where
  "spine_step id_to_href result itemref =
     (if endswith (el_tag itemref) (lit ''}itemref'') \<or> el_tag itemref = lit ''itemref'' then
        (let idref = el_get itemref (lit ''idref'');
             props = el_get itemref (lit ''properties'')
         in if truthy idref \<and> truthy props \<and> id_to_href (the idref) \<noteq> None
            then result\<lparr>spine_properties :=
                   AList.update (the (id_to_href (the idref))) (the props) (spine_properties result)\<rparr>
            else result)
      else result)"

text \<open>\<^verbatim>\<open>_extract_opf_metadata\<close> after the parse.\<close>

definition extract_from_root :: "element \<Rightarrow> opf_result" where
  "extract_from_root root =
     (case find_opf root ''metadata'' of
        None \<Rightarrow> unset_result
      | Some metadata \<Rightarrow>
          (let result1 = foldl meta_step unset_result (iter metadata);
               st = (case find_opf root ''manifest'' of
                       None \<Rightarrow> (result1, Map.empty)
                     | Some manifest \<Rightarrow> foldl manifest_step (result1, Map.empty) (iter manifest))
           in case find_opf root ''spine'' of
                None \<Rightarrow> fst st
              | Some spine \<Rightarrow> foldl (spine_step (snd st)) (fst st) (iter spine)))"

text \<open>
  \<^verbatim>\<open>_extract_opf_metadata\<close>: only \<^verbatim>\<open>ET.ParseError\<close> is caught; what else the parser
  raises leaves the function.
\<close>

definition extract_opf_metadata ::
  "(bytes \<Rightarrow> py_error + element) \<Rightarrow> bytes \<Rightarrow> py_error + opf_result" where
  "extract_opf_metadata fromstring opf_content =
     (case fromstring opf_content of
        Inr root \<Rightarrow> Inr (extract_from_root root)
      | Inl e \<Rightarrow> if e = ParseError then Inr unset_result else Inl e)"

section \<open>Reassembly\<close>

text \<open>
  What the interpreter supplies: the table of Unicode decimal digits, \<^verbatim>\<open>str.lower\<close> and
  \<^verbatim>\<open>ET.fromstring\<close>.
\<close>

record py_env =
  isdecimal :: "nat \<Rightarrow> bool"
  lower :: "ustr \<Rightarrow> ustr"
  fromstring :: "bytes \<Rightarrow> py_error + element"

text \<open>
  A fragment is a \<^verbatim>\<open>ZipFile\<close> opened for reading: its entries in archive order. Of two
  entries with one name \<^verbatim>\<open>read\<close> and \<^verbatim>\<open>getinfo\<close> see the later one, while
  \<^verbatim>\<open>namelist()\<close> lists both.
\<close>

type_synonym fragment = "(ustr \<times> bytes) list"

definition namelist :: "fragment \<Rightarrow> ustr list" where
  "namelist zipfile = map fst zipfile"

definition zip_read :: "fragment \<Rightarrow> ustr \<Rightarrow> py_error + bytes" where
  "zip_read zipfile name =
     (case map_of (rev zipfile) name of None \<Rightarrow> Inl KeyError | Some c \<Rightarrow> Inr c)"

definition file_size :: "fragment \<Rightarrow> ustr \<Rightarrow> py_error + nat" where
  "file_size zipfile name =
     (case map_of (rev zipfile) name of None \<Rightarrow> Inl KeyError | Some c \<Rightarrow> Inr (length c))"

text \<open>
  \<^verbatim>\<open>EpubInParts\<close>, with each file already downloaded and decrypted, and the three
  rendition fields of \<^verbatim>\<open>Metadata\<close>.
\<close>

record epub_in_parts =
  files :: "fragment list"
  files_in_toc :: "(ustr \<times> ustr) list"

record metadata =
  md_rendition_layout :: "ustr option"
  md_rendition_spread :: "ustr option"
  md_rendition_orientation :: "ustr option"

text \<open>
  An \<^verbatim>\<open>epub.EpubItem\<close>; no media type means that none was passed.
  \<^verbatim>\<open>EpubBook.add_item\<close> appends to \<^verbatim>\<open>items\<close>.
\<close>

record epub_item =
  file_name :: ustr
  item_content :: bytes
  item_media_type :: "ustr option"

text \<open>The local variables of \<^verbatim>\<open>_download_epub_in_parts\<close> and the book under construction.\<close>

record merge_state =
  added_files :: "ustr \<rightharpoonup> nat"
  css_cache :: "(ustr \<times> bytes) list"
  st_cover_href :: "ustr option"
  st_spine_properties :: "(ustr \<times> ustr) list"
  opf_extracted :: bool
  st_metadata :: metadata
  out_items :: "epub_item list"
  out_spine :: "(epub_item \<times> ustr option) list"
  out_toc :: "epub_item list"

definition initial_state :: "metadata \<Rightarrow> merge_state" where
  "initial_state md =
     \<lparr>added_files = Map.empty, css_cache = [], st_cover_href = None, st_spine_properties = [],
      opf_extracted = False, st_metadata = md, out_items = [], out_spine = [], out_toc = []\<rparr>"

fun fold_err :: "('s \<Rightarrow> 'a \<Rightarrow> py_error + 's) \<Rightarrow> 'a list \<Rightarrow> 's \<Rightarrow> py_error + 's" where
  "fold_err f [] s = Inr s"
| "fold_err f (x # xs) s = (case f s x of Inl e \<Rightarrow> Inl e | Inr s' \<Rightarrow> fold_err f xs s')"

text \<open>\<^verbatim>\<open>should_add_file\<close>.\<close>

definition should_add_file :: "merge_state \<Rightarrow> fragment \<Rightarrow> ustr \<Rightarrow> py_error + bool" where
  "should_add_file st zipfile filename =
     (if endswith filename (lit ''/'') then Inr False
      else if filename = lit ''mimetype'' \<or> startswith filename (lit ''META-INF/'') then Inr False
      else if endswith filename (lit ''.opf'') \<or> endswith filename (lit ''.ncx'') then Inr False
      else if added_files st filename = None then Inr True
      else (case file_size zipfile filename of
              Inl e \<Rightarrow> Inl e
            | Inr new_size \<Rightarrow> Inr (new_size > the (added_files st filename))))"

text \<open>The first loop of a fragment: the package document, once.\<close>

definition store_opf_metadata :: "merge_state \<Rightarrow> opf_result \<Rightarrow> merge_state" where
  "store_opf_metadata st opf_metadata =
     (let md = st_metadata st;
          md1 = (if truthy (rendition_layout opf_metadata)
                 then md\<lparr>md_rendition_layout := rendition_layout opf_metadata\<rparr> else md);
          md2 = (if truthy (rendition_spread opf_metadata)
                 then md1\<lparr>md_rendition_spread := rendition_spread opf_metadata\<rparr> else md1);
          md3 = (if truthy (rendition_orientation opf_metadata)
                 then md2\<lparr>md_rendition_orientation := rendition_orientation opf_metadata\<rparr>
                 else md2)
      in st\<lparr>st_metadata := md3,
            st_cover_href := (if truthy (cover_href opf_metadata) then cover_href opf_metadata
                              else st_cover_href st),
            st_spine_properties :=
              foldl (\<lambda>d kv. AList.update (fst kv) (snd kv) d) (st_spine_properties st)
                (spine_properties opf_metadata),
            opf_extracted := True\<rparr>)"

definition extract_opf :: "py_env \<Rightarrow> merge_state \<Rightarrow> fragment \<Rightarrow> py_error + merge_state" where
  "extract_opf env st zipfile =
     (if \<not> opf_extracted st then
        (case List.find (\<lambda>filename. endswith filename (lit ''.opf'')) (namelist zipfile) of
           None \<Rightarrow> Inr st
         | Some filename \<Rightarrow>
             (case zip_read zipfile filename of
                Inl e \<Rightarrow> Inl e
              | Inr opf_content \<Rightarrow>
                  (case extract_opf_metadata (fromstring env) opf_content of
                     Inl e \<Rightarrow> Inl e
                   | Inr opf_metadata \<Rightarrow> Inr (store_opf_metadata st opf_metadata))))
      else Inr st)"

text \<open>The second loop: stylesheets.\<close>

definition css_step :: "fragment \<Rightarrow> merge_state \<Rightarrow> ustr \<Rightarrow> py_error + merge_state" where
  "css_step zipfile st filepath =
     (if endswith filepath (lit ''.css'') then
        (case zip_read zipfile filepath of
           Inl e \<Rightarrow> Inl e
         | Inr content \<Rightarrow>
             if content = [] then Inr st
             else (case map_of (css_cache st) filepath of
                     None \<Rightarrow> Inr (st\<lparr>css_cache := AList.update filepath content (css_cache st)\<rparr>)
                   | Some existing \<Rightarrow>
                       (case merge_css existing content of
                          Inl e \<Rightarrow> Inl e
                        | Inr merged \<Rightarrow>
                            Inr (st\<lparr>css_cache := AList.update filepath merged (css_cache st)\<rparr>))))
      else Inr st)"

text \<open>The third loop: every other file. First the parts of its body for a page.\<close>

definition css_path_of :: "ustr \<Rightarrow> ustr" where
  "css_path_of filepath =
     replace_all (lit ''.html'') (lit ''.css'') (replace_all (lit ''.xhtml'') (lit ''.css'') filepath)"

definition repaired :: "py_env \<Rightarrow> merge_state \<Rightarrow> ustr \<Rightarrow> bytes \<Rightarrow> py_error + bytes" where
  "repaired env st filepath content =
     (if md_rendition_layout (st_metadata st) = Some (lit ''pre-paginated'') then
        (let css_content = map_of (css_cache st) (css_path_of filepath) in
         if truthy css_content then fix_fixed_layout_page (isdecimal env) content css_content
         else Inr content)
      else Inr content)"

definition is_in_toc :: "(ustr \<times> ustr) list \<Rightarrow> ustr \<Rightarrow> bool" where
  "is_in_toc toc_index filename = list_ex (\<lambda>kv. filename = hd (split_on 35 (fst kv))) toc_index"

definition is_nav :: "py_env \<Rightarrow> ustr \<Rightarrow> bool" where
  "is_nav env filepath =
     list_ex (\<lambda>x. str_in x (lower env filepath))
       [lit ''nav.xhtml'', lit ''nav.html'', lit ''toc.xhtml'', lit ''toc.html'']"

definition spine_props_for :: "(ustr \<times> ustr) list \<Rightarrow> ustr \<Rightarrow> ustr option" where
  "spine_props_for props filepath =
     (case List.find (\<lambda>kv. endswith filepath (fst kv) \<or> endswith (fst kv) (basename filepath)) props of
        None \<Rightarrow> None
      | Some kv \<Rightarrow> if snd kv \<noteq> [] then Some (snd kv) else None)"

definition add_page ::
  "py_env \<Rightarrow> (ustr \<times> ustr) list \<Rightarrow> merge_state \<Rightarrow> ustr \<Rightarrow> bytes \<Rightarrow> merge_state" where
  "add_page env toc_index st filepath content =
     (let epub_file = \<lparr>file_name = filepath, item_content = content,
                        item_media_type = Some (lit ''application/xhtml+xml'')\<rparr>;
          st1 = st\<lparr>out_items := out_items st @ [epub_file]\<rparr>;
          st2 = (if \<not> (is_nav env filepath \<and>
                        md_rendition_layout (st_metadata st) = Some (lit ''pre-paginated''))
                 then st1\<lparr>out_spine := out_spine st1 @
                            [(epub_file, spine_props_for (st_spine_properties st) filepath)]\<rparr>
                 else st1)
      in if is_in_toc toc_index (basename filepath) then st2\<lparr>out_toc := out_toc st2 @ [epub_file]\<rparr>
         else st2)"

definition file_step ::
  "py_env \<Rightarrow> (ustr \<times> ustr) list \<Rightarrow> fragment \<Rightarrow> merge_state \<Rightarrow> ustr \<Rightarrow> py_error + merge_state"
  where
  "file_step env toc_index zipfile st filepath =
     (if endswith filepath (lit ''.css'') then Inr st
      else (case should_add_file st zipfile filepath of
              Inl e \<Rightarrow> Inl e
            | Inr False \<Rightarrow> Inr st
            | Inr True \<Rightarrow>
                (case zip_read zipfile filepath of
                   Inl e \<Rightarrow> Inl e
                 | Inr content \<Rightarrow>
                     (if endswith filepath (lit ''html'') then
                        (case repaired env st filepath content of
                           Inl e \<Rightarrow> Inl e
                         | Inr content' \<Rightarrow>
                             Inr ((add_page env toc_index st filepath content')
                                    \<lparr>added_files := (added_files st)(filepath \<mapsto> length content)\<rparr>))
                      else
                        Inr (st\<lparr>out_items := out_items st @
                                   [\<lparr>file_name = filepath, item_content = content, item_media_type = None\<rparr>],
                                 added_files := (added_files st)(filepath \<mapsto> length content)\<rparr>)))))"

text \<open>One round of the loop over \<^verbatim>\<open>files\<close>.\<close>

definition merge_fragment ::
  "py_env \<Rightarrow> (ustr \<times> ustr) list \<Rightarrow> merge_state \<Rightarrow> fragment \<Rightarrow> py_error + merge_state" where
  "merge_fragment env toc_index st zipfile =
     (case extract_opf env st zipfile of
        Inl e \<Rightarrow> Inl e
      | Inr st1 \<Rightarrow>
          (case fold_err (css_step zipfile) (namelist zipfile) st1 of
             Inl e \<Rightarrow> Inl e
           | Inr st2 \<Rightarrow> fold_err (file_step env toc_index zipfile) (namelist zipfile) st2))"

text \<open>
  \<^verbatim>\<open>_download_epub_in_parts\<close> up to the book it hands to the packaging library: the
  division for the progress step, the loop, then the merged stylesheets as items. The
  cover marking that follows adds no item and no spine entry.
\<close>

record package =
  pkg_manifest :: "epub_item list"
  pkg_spine :: "(epub_item \<times> ustr option) list"
  pkg_toc :: "epub_item list"
  pkg_metadata :: metadata

definition css_items :: "(ustr \<times> bytes) list \<Rightarrow> epub_item list" where
  "css_items cache =
     map (\<lambda>kv. \<lparr>file_name = fst kv, item_content = snd kv, item_media_type = Some (lit ''text/css'')\<rparr>) cache"

definition download_epub_in_parts ::
  "py_env \<Rightarrow> epub_in_parts \<Rightarrow> metadata \<Rightarrow> py_error + package" where
  "download_epub_in_parts env data md =
     (let file_count = length (files data) in
      if file_count = 0 then Inl ZeroDivisionError
      else (case fold_err (merge_fragment env (files_in_toc data)) (files data) (initial_state md) of
              Inl e \<Rightarrow> Inl e
            | Inr st \<Rightarrow>
                Inr \<lparr>pkg_manifest = out_items st @ css_items (css_cache st), pkg_spine = out_spine st,
                     pkg_toc = out_toc st, pkg_metadata = st_metadata st\<rparr>))"

section \<open>Words for the statements about the merge\<close>

text \<open>
  The paths the third loop passes over (stylesheets, directory entries, the container
  files, package and navigation-control documents); the body stored for a file that is
  taken; the state after a file is taken; the paths of the pages among the items and the
  paths in the spine, both in the order of the lists; a path whose recorded size is at
  least the size the fragment has for it; a cache whose keys are stylesheet paths.
\<close>

definition excluded :: "ustr \<Rightarrow> bool" where
  "excluded filename \<longleftrightarrow>
     endswith filename (lit ''.css'') \<or> endswith filename (lit ''/'') \<or>
     filename = lit ''mimetype'' \<or> startswith filename (lit ''META-INF/'') \<or>
     endswith filename (lit ''.opf'') \<or> endswith filename (lit ''.ncx'')"

definition stored_body :: "py_env \<Rightarrow> merge_state \<Rightarrow> ustr \<Rightarrow> bytes \<Rightarrow> py_error + bytes" where
  "stored_body env st filepath body =
     (if endswith filepath (lit ''html'') then repaired env st filepath body else Inr body)"

definition accepted ::
  "py_env \<Rightarrow> (ustr \<times> ustr) list \<Rightarrow> merge_state \<Rightarrow> ustr \<Rightarrow> bytes \<Rightarrow> bytes \<Rightarrow> merge_state" where
  "accepted env toc_index st filepath body c =
     (if endswith filepath (lit ''html'') then add_page env toc_index st filepath c
      else st\<lparr>out_items := out_items st @
                 [\<lparr>file_name = filepath, item_content = c, item_media_type = None\<rparr>]\<rparr>)
       \<lparr>added_files := (added_files st)(filepath \<mapsto> length body)\<rparr>"



definition covered :: "merge_state \<Rightarrow> fragment \<Rightarrow> ustr \<Rightarrow> bool" where
  "covered st z p \<longleftrightarrow>
     (\<exists>n. added_files st p = Some n \<and> (\<forall>body. map_of (rev z) p = Some body \<longrightarrow> length body \<le> n))"


section \<open>Example inputs\<close>

text \<open>The ASCII part of the table of decimal digits, for the examples.\<close>

definition ascii_decimal :: "nat \<Rightarrow> bool" where
  "ascii_decimal c \<longleftrightarrow> 48 \<le> c \<and> c \<le> 57"

text \<open>
  A package document whose first manifest item carries the cover-image property and whose
  second item has the id that the metadata names as cover, with the tree the parser builds
  from it. \<open>example_fromstring\<close> stands for \<^verbatim>\<open>ET.fromstring\<close> on the documents of the
  examples: the tree for this document, \<^verbatim>\<open>LookupError\<close> for a document that declares an
  encoding the interpreter does not know, \<^verbatim>\<open>ParseError\<close> for text that is not XML.
\<close>

definition example_metadata :: element where
  "example_metadata =
     Element (opf_tag ''metadata'') [] None
       [Element (opf_tag ''meta'') [(lit ''name'', lit ''cover''), (lit ''content'', lit ''cov'')] None []]"

definition example_item1 :: element where
  "example_item1 =
     Element (opf_tag ''item'')
       [(lit ''id'', lit ''img1''), (lit ''href'', lit ''a.jpg''), (lit ''properties'', lit ''cover-image'')]
       None []"

definition example_item2 :: element where
  "example_item2 =
     Element (opf_tag ''item'') [(lit ''id'', lit ''cov''), (lit ''href'', lit ''b.jpg'')] None []"

definition example_manifest :: element where
  "example_manifest = Element (opf_tag ''manifest'') [] None [example_item1, example_item2]"

definition example_root :: element where
  "example_root = Element (opf_tag ''package'') [] None [example_metadata, example_manifest]"

definition example_opf :: bytes where
  \<open>example_opf = ''<package xmlns="http://www.idpf.org/2007/opf"><metadata><meta name="cover" content="cov"/></metadata><manifest><item id="img1" href="a.jpg" properties="cover-image"/><item id="cov" href="b.jpg"/></manifest></package>''\<close>

definition example_fromstring :: "bytes \<Rightarrow> py_error + element" where
  \<open>example_fromstring b =
     (if b = example_opf then Inr example_root
      else if b = ''<?xml version="1.0" encoding="bogus"?><a/>'' then Inl LookupError
      else Inl ParseError)\<close>

text \<open>
  \<^verbatim>\<open>str.lower\<close> on ASCII text, the interpreter of the examples, two values of
  \<^verbatim>\<open>Metadata\<close>, a page item, and the state after one fragment with a page and a
  stylesheet.
\<close>

definition ascii_lower :: "ustr \<Rightarrow> ustr" where
  "ascii_lower s = map (\<lambda>c. if 65 \<le> c \<and> c \<le> 90 then c + 32 else c) s"

definition example_env :: py_env where
  "example_env = \<lparr>isdecimal = ascii_decimal, lower = ascii_lower, fromstring = example_fromstring\<rparr>"

definition no_layout :: metadata where
  "no_layout = \<lparr>md_rendition_layout = None, md_rendition_spread = None,
                 md_rendition_orientation = None\<rparr>"

definition fixed_layout :: metadata where
  "fixed_layout = \<lparr>md_rendition_layout = Some (lit ''pre-paginated''), md_rendition_spread = None,
                   md_rendition_orientation = None\<rparr>"

definition page_item :: "string \<Rightarrow> bytes \<Rightarrow> epub_item" where
  "page_item name body =
     \<lparr>file_name = lit name, item_content = body,
      item_media_type = Some (lit ''application/xhtml+xml'')\<rparr>"

definition example_merged :: merge_state where
  "example_merged =
     (initial_state no_layout)
       \<lparr>added_files := [lit ''ch1.xhtml'' \<mapsto> 4],
        css_cache := [(lit ''ch1.css'', ''p{}'')],
        out_items := [page_item ''ch1.xhtml'' ''<p/>''],
        out_spine := [(page_item ''ch1.xhtml'' ''<p/>'', None)]\<rparr>"

section \<open>Properties\<close>

subsection \<open>Text helpers\<close>

lemma encode_cp_scalar: "scalar c \<Longrightarrow> \<exists>bs. encode_cp c = Some bs"
  by (auto simp: scalar_def encode_cp_def)

lemma encode_values_scalar: "list_all scalar s \<Longrightarrow> \<exists>bs. encode_values s = Some bs"
proof (induction s)
  case Nil
  then show ?case by simp
next
  case (Cons c cs)
  then obtain bs where "encode_cp c = Some bs" using encode_cp_scalar by auto
  moreover from Cons obtain bs' where "encode_values cs = Some bs'" by auto
  ultimately show ?case by simp
qed

lemma utf8_encode_scalar: "list_all scalar s \<Longrightarrow> \<exists>b. utf8_encode s = Inr b"
  using encode_values_scalar [of s] by (auto simp: utf8_encode_def)

lemma scalar2: "b \<le> 63 \<Longrightarrow> a \<le> 31 \<Longrightarrow> scalar (a * 64 + b)"
  unfolding scalar_def by linarith
lemma scalar3:
  assumes "a \<le> 15" "b \<le> 63" "c \<le> 63" "a = 13 \<longrightarrow> b \<le> 31"
  shows "scalar ((a * 64 + b) * 64 + c)"
proof -
  have e: "(a * 64 + b) * 64 + c = a * 4096 + b * 64 + c" by (simp add: algebra_simps)
  consider "a \<le> 12" | "a = 13" | "14 \<le> a" by linarith
  then show ?thesis
  proof cases
    case 1 then show ?thesis unfolding scalar_def e using assms by linarith
  next
    case 2 then show ?thesis unfolding scalar_def e using assms by simp
  next
    case 3 then show ?thesis unfolding scalar_def e using assms by linarith
  qed
qed
lemma scalar4:
  assumes "a \<le> 4" "b \<le> 63" "c \<le> 63" "d \<le> 63" "1 \<le> a \<or> 16 \<le> b" "a = 4 \<longrightarrow> b \<le> 15"
  shows "scalar (((a * 64 + b) * 64 + c) * 64 + d)"
proof -
  have e: "((a * 64 + b) * 64 + c) * 64 + d = a * 262144 + b * 4096 + c * 64 + d"
    by (simp add: algebra_simps)
  consider "a = 0" | "1 \<le> a \<and> a \<le> 3" | "a = 4" using assms(1) by linarith
  then show ?thesis
  proof cases
    case 1 then show ?thesis unfolding scalar_def e using assms by simp
  next
    case 2 then show ?thesis unfolding scalar_def e using assms by linarith
  next
    case 3 then show ?thesis unfolding scalar_def e using assms by simp
  qed
qed

lemma utf8_step_scalar:
  assumes "utf8_step bs = Some (cp, n)"
  shows "scalar cp"
proof (cases bs)
  case Nil
  with assms show ?thesis by (simp add: utf8_step_def)
next
  case (Cons b0 r)
  consider "b0 < 128" | "194 \<le> b0 \<and> b0 \<le> 223" | "224 \<le> b0 \<and> b0 \<le> 239"
    | "240 \<le> b0 \<and> b0 \<le> 244" | "(128 \<le> b0 \<and> b0 < 194) \<or> 244 < b0"
    by arith
  then show ?thesis
  proof cases
    case 1
    with assms Cons show ?thesis by (simp add: utf8_step_def scalar_def)
  next
    case 2
    with assms Cons obtain b1 r1 where r: "r = b1 # r1" and c: "cont b1"
      and cp: "cp = (b0 - 192) * 64 + (b1 - 128)"
      by (auto simp: utf8_step_def split: list.splits if_splits)
    have "b1 - 128 \<le> 63" "b0 - 192 \<le> 31" using c 2 by (auto simp: cont_def)
    then show ?thesis unfolding cp by (rule scalar2)
  next
    case 3
    with assms Cons obtain b1 b2 r2 where r: "r = b1 # b2 # r2" and c: "cont b2"
      and lo: "(if b0 = 224 then 160 else 128) \<le> b1" and hi: "b1 \<le> (if b0 = 237 then 159 else 191)"
      and cp: "cp = ((b0 - 224) * 64 + (b1 - 128)) * 64 + (b2 - 128)"
      by (auto simp: utf8_step_def split: list.splits if_splits)
    have "b0 - 224 \<le> 15" "b1 - 128 \<le> 63" "b2 - 128 \<le> 63" "b0 - 224 = 13 \<longrightarrow> b1 - 128 \<le> 31"
      using c 3 lo hi by (auto simp: cont_def split: if_splits)
    then show ?thesis unfolding cp by (rule scalar3)
  next
    case 4
    with assms Cons obtain b1 b2 b3 r3 where r: "r = b1 # b2 # b3 # r3" and c: "cont b2" "cont b3"
      and lo: "(if b0 = 240 then 144 else 128) \<le> b1" and hi: "b1 \<le> (if b0 = 244 then 143 else 191)"
      and cp: "cp = (((b0 - 240) * 64 + (b1 - 128)) * 64 + (b2 - 128)) * 64 + (b3 - 128)"
      by (auto simp: utf8_step_def split: list.splits if_splits)
    have "b0 - 240 \<le> 4" "b1 - 128 \<le> 63" "b2 - 128 \<le> 63" "b3 - 128 \<le> 63"
      "1 \<le> b0 - 240 \<or> 16 \<le> b1 - 128" "b0 - 240 = 4 \<longrightarrow> b1 - 128 \<le> 15"
      using c 4 lo hi by (auto simp: cont_def split: if_splits)
    then show ?thesis unfolding cp by (rule scalar4)
  next
    case 5
    with assms Cons show ?thesis by (auto simp: utf8_step_def)
  qed
qed

lemma decode_values_scalar: "decode_values bs = Some s \<Longrightarrow> list_all scalar s"
proof (induction bs arbitrary: s rule: decode_values.induct)
  case 1
  then show ?case by simp
next
  case (2 b bs)
  then show ?case
    by (auto split: option.splits dest: utf8_step_scalar)
qed

lemma decode_values_ignore_scalar: "list_all scalar (decode_values_ignore bs)"
  by (induction bs rule: decode_values_ignore.induct)
    (auto split: option.splits dest: utf8_step_scalar)


lemma set_split_on: "x \<in> set (split_on c s) \<Longrightarrow> set x \<subseteq> set s"
proof (induction s arbitrary: x)
  case Nil
  then show ?case by simp
next
  case (Cons a s)
  have ne: "split_on c s \<noteq> []" by (cases s) (auto simp: Let_def)
  show ?case
  proof (cases "a = c")
    case True
    with Cons show ?thesis by (auto simp: Let_def)
  next
    case False
    with Cons.prems have "x = a # hd (split_on c s) \<or> x \<in> set (tl (split_on c s))"
      by (auto simp: Let_def)
    then show ?thesis
    proof
      assume "x = a # hd (split_on c s)"
      moreover have "hd (split_on c s) \<in> set (split_on c s)" using ne by simp
      ultimately show ?thesis using Cons.IH by auto
    next
      assume "x \<in> set (tl (split_on c s))"
      then have "x \<in> set (split_on c s)" using ne by (meson list.set_sel(2))
      then show ?thesis using Cons.IH by auto
    qed
  qed
qed

lemma set_strip: "set (strip s) \<subseteq> set s"
proof -
  have "set (strip s) \<subseteq> set (rev (dropWhile is_space s))"
    unfolding strip_def by (metis set_dropWhileD set_rev subsetI)
  also have "\<dots> \<subseteq> set s" by (auto dest: set_dropWhileD)
  finally show ?thesis .
qed

lemma set_join: "set (join sep xs) \<subseteq> set sep \<union> \<Union> (set ` set xs)"
  by (induction sep xs rule: join.induct) auto

lemma set_replace_first: "set (replace_first old new s) \<subseteq> set s \<union> set new"
  by (induction s) (auto dest: in_set_dropD)

lemma set_re_sub: "set (re_sub its repl s) \<subseteq> set s \<union> set repl"
proof (induction its repl s rule: re_sub.induct)
  case (1 its repl)
  then show ?case by simp
next
  case (2 its repl x xs)
  show ?case
  proof (cases "re_match its (x # xs)")
    case None
    with 2 show ?thesis by auto
  next
    case (Some r)
    obtain g n where r: "r = (g, n)" by (cases r)
    have "set (re_sub its repl (drop (n - 1) xs)) \<subseteq> set (drop (n - 1) xs) \<union> set repl"
      using 2 Some r by simp
    moreover have "set (drop (n - 1) xs) \<subseteq> set xs" by (rule set_drop_subset)
    ultimately show ?thesis using Some r by auto
  qed
qed

lemma re_match_group:
  shows "re_match its s = Some (Some g, m) \<Longrightarrow> set g \<subseteq> set s"
    and "try_counts cap its ns s = Some (Some g, m) \<Longrightarrow> set g \<subseteq> set s"
proof (induction its s and cap its ns s arbitrary: g m and g m rule: re_match_try_counts.induct)
  case (1 s)
  then show ?case by simp
next
  case (2 cls q cap its s)
  then show ?case by simp
next
  case (3 cap its s)
  then show ?case by simp
next
  case (4 cap its n ns s)
  show ?case
  proof (cases "re_match its (drop n s)")
    case None
    with 4 show ?thesis by simp
  next
    case (Some r)
    obtain g' m' where r: "r = (g', m')" by (cases r)
    show ?thesis
    proof (cases cap)
      case True
      with Some r 4(3) show ?thesis by (auto dest: in_set_takeD)
    next
      case False
      with Some r 4(3) have "re_match its (drop n s) = Some (Some g, m')" by simp
      from 4(1) [OF this] show ?thesis by (auto dest: in_set_dropD)
    qed
  qed
qed

lemma re_search_group: "re_search its s = Some (Some g, m) \<Longrightarrow> set g \<subseteq> set s"
proof (induction its s rule: re_search.induct)
  case (1 its)
  then have "re_match its [] = Some (Some g, m)" by simp
  then show ?case by (rule re_match_group(1))
next
  case (2 its x xs)
  show ?case
  proof (cases "re_match its (x # xs)")
    case None
    with 2 have "set g \<subseteq> set xs" by simp
    then show ?thesis by auto
  next
    case (Some r)
    with 2(2) have "re_match its (x # xs) = Some (Some g, m)" by simp
    then show ?thesis by (rule re_match_group(1))
  qed
qed

lemma search_group_set: "search_group its s = Some g \<Longrightarrow> set g \<subseteq> set s"
  unfolding search_group_def
  by (auto split: option.splits prod.splits dest: re_search_group)

lemma of_char_less_256: "(of_char c :: nat) < 256"
proof -
  have "(of_char c :: nat) mod 256 < 256" by simp
  then show ?thesis by (simp only: of_char_mod_256)
qed

lemma scalar_lit: "list_all scalar (lit s)"
proof -
  have "scalar (of_char c)" for c
  proof -
    have "(of_char c :: nat) < 55296" using of_char_less_256 [of c] by linarith
    then show ?thesis by (simp add: scalar_def)
  qed
  then show ?thesis by (simp add: lit_def list_all_iff)
qed

lemma counts_positive: "n \<in> set (counts q k) \<Longrightarrow> q = Plus \<or> q = Once \<Longrightarrow> 1 \<le> n \<and> n \<le> k"
  by (cases q) (auto split: if_splits)

lemma re_match_group_nonempty:
  shows "\<forall>it\<in>set its. group_nonempty it \<Longrightarrow> re_match its s = Some (Some g, m) \<Longrightarrow> g \<noteq> []"
    and "\<forall>it\<in>set its. group_nonempty it \<Longrightarrow> cap \<longrightarrow> (\<forall>n\<in>set ns. 1 \<le> n \<and> n \<le> length s) \<Longrightarrow>
         try_counts cap its ns s = Some (Some g, m) \<Longrightarrow> g \<noteq> []"
proof (induction its s and cap its ns s arbitrary: g m and g m rule: re_match_try_counts.induct)
  case (1 s)
  then show ?case by simp
next
  case (2 cls q cap its s)
  have "1 \<le> n \<and> n \<le> length s"
    if "n \<in> set (counts q (length (takeWhile (cmatch cls) s)))" "q = Plus \<or> q = Once" for n
    using counts_positive [OF that] length_takeWhile_le [of "cmatch cls" s] by linarith
  with 2(2) have "cap \<longrightarrow> (\<forall>n\<in>set (counts q (length (takeWhile (cmatch cls) s))). 1 \<le> n \<and> n \<le> length s)"
    by (auto simp: group_nonempty_def)
  with 2 show ?case by simp
next
  case (3 cap its s)
  then show ?case by simp
next
  case (4 cap its n ns s)
  show ?case
  proof (cases "re_match its (drop n s)")
    case None
    with 4 show ?thesis by simp
  next
    case (Some r)
    obtain g' m' where r: "r = (g', m')" by (cases r)
    show ?thesis
    proof (cases cap)
      case True
      with Some r 4(4,5) show ?thesis by auto
    next
      case False
      with Some r 4(5) have "re_match its (drop n s) = Some (Some g, m')" by simp
      from 4(1) [OF 4(3) this] show ?thesis .
    qed
  qed
qed

lemma re_search_group_nonempty:
  "\<forall>it\<in>set its. group_nonempty it \<Longrightarrow> re_search its s = Some (Some g, m) \<Longrightarrow> g \<noteq> []"
proof (induction its s rule: re_search.induct)
  case (1 its)
  then have "re_match its [] = Some (Some g, m)" by simp
  with 1(1) show ?case by (rule re_match_group_nonempty(1))
next
  case (2 its x xs)
  show ?case
  proof (cases "re_match its (x # xs)")
    case None
    with 2 show ?thesis by simp
  next
    case (Some r)
    with 2(3) have "re_match its (x # xs) = Some (Some g, m)" by simp
    with 2(2) show ?thesis by (rule re_match_group_nonempty(1))
  qed
qed

lemma search_group_nonempty:
  "\<forall>it\<in>set its. group_nonempty it \<Longrightarrow> search_group its s = Some g \<Longrightarrow> g \<noteq> []"
  unfolding search_group_def
  by (auto split: option.splits prod.splits dest: re_search_group_nonempty)

lemma body_dim_re_group: "\<forall>it\<in>set (body_dim_re isdec name). group_nonempty it"
  by (auto simp: body_dim_re_def chars_def group_nonempty_def)

lemma utf8_decode_scalar: "utf8_decode b = Some s \<Longrightarrow> list_all scalar s"
  unfolding utf8_decode_def by (rule decode_values_scalar)

lemma css_dimensions_Some:
  assumes "css_dimensions isdec css_content = (Some w, Some h)"
  shows "w \<noteq> [] \<and> h \<noteq> [] \<and> list_all scalar w \<and> list_all scalar h"
proof -
  from assms obtain css css_str where c: "css_content = Some css"
    and d: "utf8_decode css = Some css_str"
    and w: "search_group (body_dim_re isdec ''width:'') css_str = Some w"
    and h: "search_group (body_dim_re isdec ''height:'') css_str = Some h"
    by (cases css_content) (auto simp: css_dimensions_def split: if_splits option.splits)
  have "list_all scalar css_str" using d by (rule utf8_decode_scalar)
  moreover have "set w \<subseteq> set css_str" "set h \<subseteq> set css_str"
    using w h by (auto dest: search_group_set)
  ultimately have "list_all scalar w" "list_all scalar h"
    by (auto simp: list_all_iff)
  moreover have "w \<noteq> []" "h \<noteq> []"
    using w h body_dim_re_group by (auto dest: search_group_nonempty)
  ultimately show ?thesis by simp
qed

lemma scalar_subset: "set xs \<subseteq> set ys \<Longrightarrow> list_all scalar ys \<Longrightarrow> list_all scalar xs"
  by (auto simp: list_all_iff)

lemma scalar_viewport_tag:
  "list_all scalar w \<Longrightarrow> list_all scalar h \<Longrightarrow> list_all scalar (viewport_tag w h)"
  unfolding viewport_tag_def by (simp add: scalar_lit)

lemma scalar_fixed_style:
  "list_all scalar w \<Longrightarrow> list_all scalar h \<Longrightarrow> list_all scalar (fixed_style w h)"
  unfolding fixed_style_def by (simp add: scalar_lit)

lemma scalar_add_viewport:
  assumes "list_all scalar w" "list_all scalar h" "list_all scalar s"
  shows "list_all scalar (add_viewport w h s)"
proof -
  let ?new = "lit ''<head>'' @ [10] @ lit ''    '' @ viewport_tag w h"
  have "list_all scalar ?new"
    using assms by (simp add: scalar_lit scalar_viewport_tag scalar_def)
  moreover have "set (replace_first (lit ''<head>'') ?new s) \<subseteq> set s \<union> set ?new"
    by (rule set_replace_first)
  ultimately have "list_all scalar (replace_first (lit ''<head>'') ?new s)"
    using assms(3) unfolding list_all_iff by blast
  then show ?thesis using assms(3) by (simp add: add_viewport_def)
qed

lemma scalar_re_sub:
  "list_all scalar repl \<Longrightarrow> list_all scalar s \<Longrightarrow> list_all scalar (re_sub its repl s)"
  using set_re_sub [of its repl s] unfolding list_all_iff by blast

lemma decode_values_ascii: "\<forall>b\<in>set bs. b < 128 \<Longrightarrow> decode_values bs = Some bs"
  by (induction bs) (auto simp: utf8_step_def)

lemma utf8_decode_ascii: "\<forall>c\<in>set b. (of_char c :: nat) < 128 \<Longrightarrow> utf8_decode b = Some (lit b)"
  by (simp add: utf8_decode_def lit_def decode_values_ascii)

lemma encode_values_ascii: "\<forall>c\<in>set s. c < 128 \<Longrightarrow> encode_values s = Some s"
  by (induction s) (auto simp: encode_cp_def)

lemma utf8_encode_ascii: "\<forall>c\<in>set b. (of_char c :: nat) < 128 \<Longrightarrow> utf8_encode (lit b) = Inr b"
  by (simp add: utf8_encode_def lit_def encode_values_ascii comp_def)

text \<open>The definitions a concrete text is evaluated with.\<close>

lemmas text_eval = lit_def chars_def is_space_def search_group_def body_dim_re_def
  broken_style_re_def fixed_style_def viewport_tag_def ascii_decimal_def

subsection \<open>Fixed-layout page repair\<close>

lemma fix_page_encoded:
  assumes "utf8_decode html_content = Some html_str"
    and "css_dimensions isdec css_content = (Some width, Some height)"
  shows \<open>\<exists>out. fix_fixed_layout_page isdec html_content css_content = Inr out \<and>
           utf8_encode
             (re_sub broken_style_re (fixed_style width height)
                (if str_in (lit ''<head>'') html_str \<and> \<not> str_in (lit ''name="viewport"'') html_str
                 then replace_first (lit ''<head>'')
                        (lit ''<head>'' @ [10] @ lit ''    '' @ viewport_tag width height) html_str
                 else html_str)) = Inr out\<close>
proof -
  from assms(2) have wh: "width \<noteq> []" "height \<noteq> []" "list_all scalar width" "list_all scalar height"
    using css_dimensions_Some by blast+
  have s: "list_all scalar html_str" using assms(1) by (rule utf8_decode_scalar)
  let ?t = "re_sub broken_style_re (fixed_style width height) (add_viewport width height html_str)"
  have "list_all scalar ?t"
    using wh s by (intro scalar_re_sub scalar_fixed_style scalar_add_viewport)
  then obtain out where out: "utf8_encode ?t = Inr out"
    using utf8_encode_scalar by blast
  have "fix_fixed_layout_page isdec html_content css_content = utf8_encode ?t"
    using assms wh by (simp add: fix_fixed_layout_page_def)
  with out show ?thesis by (auto simp: add_viewport_def)
qed

lemma fix_page_total: "\<exists>out. fix_fixed_layout_page isdec html_content css_content = Inr out"
proof (cases "utf8_decode html_content")
  case None
  then show ?thesis by (simp add: fix_fixed_layout_page_def)
next
  case (Some html_str)
  obtain w h where d: "css_dimensions isdec css_content = (w, h)" by (cases "css_dimensions isdec css_content")
  show ?thesis
  proof (cases "truthy w \<and> truthy h")
    case False
    with Some d show ?thesis by (auto simp: fix_fixed_layout_page_def)
  next
    case True
    then obtain width height where "w = Some width" "h = Some height"
      by (cases w; cases h) auto
    with d fix_page_encoded [OF Some, of isdec css_content width height] show ?thesis by auto
  qed
qed

text \<open>
  C9. The specification has the page returned as it is when the \<^verbatim>\<open>body\<close> rule of the
  stylesheet declares no pixel width or no pixel height. The pattern for the height,
  \<^verbatim>\<open>body\s*\{[^}]*height:\s*(\d+)px\<close>, also finds \<^verbatim>\<open>height:\<close> at the end of
  \<^verbatim>\<open>line-height:\<close>: with a \<^verbatim>\<open>body\<close> rule that declares a width and a line height, and no
  height, the page is rewritten and gets a viewport whose height is the line height.
\<close>

theorem line_height_taken_for_height:
  \<open>fix_fixed_layout_page ascii_decimal ''<html><head></head></html>''
     (Some ''body{width:600px;line-height:20px;}'') =
     Inr (''<html><head>'' @ [CHR 0x0A] @
          ''    <meta name="viewport" content="width=600, height=20"/></head></html>'')\<close>
proof -
  have h: \<open>utf8_decode ''<html><head></head></html>'' = Some (lit ''<html><head></head></html>'')\<close>
    by (rule utf8_decode_ascii) simp
  have d: "utf8_decode ''body{width:600px;line-height:20px;}'' =
      Some (lit ''body{width:600px;line-height:20px;}'')"
    by (rule utf8_decode_ascii) simp
  have c: "css_dimensions ascii_decimal (Some ''body{width:600px;line-height:20px;}'') =
     (Some (lit ''600''), Some (lit ''20''))"
    by (simp add: css_dimensions_def d text_eval)
  have n: "lit ''600'' \<noteq> []" "lit ''20'' \<noteq> []" by (simp_all add: lit_def)
  have t: \<open>re_sub broken_style_re (fixed_style (lit ''600'') (lit ''20''))
             (add_viewport (lit ''600'') (lit ''20'') (lit ''<html><head></head></html>'')) =
           lit (''<html><head>'' @ [CHR 0x0A] @
                ''    <meta name="viewport" content="width=600, height=20"/></head></html>'')\<close>
    by (simp add: add_viewport_def text_eval)
  have e: \<open>utf8_encode (lit (''<html><head>'' @ [CHR 0x0A] @
                ''    <meta name="viewport" content="width=600, height=20"/></head></html>'')) =
           Inr (''<html><head>'' @ [CHR 0x0A] @
                ''    <meta name="viewport" content="width=600, height=20"/></head></html>'')\<close>
    by (rule utf8_encode_ascii) simp
  show ?thesis
    by (simp add: fix_fixed_layout_page_def h c n t e del: append.simps)
qed

theorem line_height_taken_for_height_witness:
  \<open>fix_fixed_layout_page ascii_decimal ''<html><head></head></html>''
     (Some ''body{width:600px;line-height:20px;}'') \<noteq>
     Inr ''<html><head></head></html>''\<close>
  by (simp add: line_height_taken_for_height)

text \<open>
  C10. With both dimensions found, the result is the page text with the degenerate
  inline styles replaced, and the viewport tag is put in only when the text contains the
  very characters \<^verbatim>\<open><head>\<close> and not \<^verbatim>\<open>name="viewport"\<close>: a head tag with attributes, or
  in another case, gets none. The encoding of the result cannot fail.
\<close>

theorem viewport_needs_plain_head:
  assumes "utf8_decode html_content = Some html_str"
    and "css_dimensions isdec css_content = (Some width, Some height)"
  shows \<open>\<exists>out. fix_fixed_layout_page isdec html_content css_content = Inr out \<and>
           utf8_encode
             (re_sub broken_style_re (fixed_style width height)
                (if str_in (lit ''<head>'') html_str \<and> \<not> str_in (lit ''name="viewport"'') html_str
                 then replace_first (lit ''<head>'')
                        (lit ''<head>'' @ [10] @ lit ''    '' @ viewport_tag width height) html_str
                 else html_str)) = Inr out\<close>
  using assms by (rule fix_page_encoded)

theorem viewport_needs_plain_head_witness:
  \<open>utf8_decode ''<head lang="en"><body style="width:px; height:px;">'' =
     Some (lit ''<head lang="en"><body style="width:px; height:px;">'') \<and>
   css_dimensions ascii_decimal (Some ''body{width:600px;height:800px;}'') =
     (Some (lit ''600''), Some (lit ''800'')) \<and>
   fix_fixed_layout_page ascii_decimal ''<head lang="en"><body style="width:px; height:px;">''
     (Some ''body{width:600px;height:800px;}'') =
     Inr ''<head lang="en"><body style="width:600px; height:800px;">''\<close>
proof -
  have h1: \<open>utf8_decode ''<head lang="en"><body style="width:px; height:px;">'' =
     Some (lit ''<head lang="en"><body style="width:px; height:px;">'')\<close>
    by (rule utf8_decode_ascii) simp
  have d: "utf8_decode ''body{width:600px;height:800px;}'' = Some (lit ''body{width:600px;height:800px;}'')"
    by (rule utf8_decode_ascii) simp
  have h2: "css_dimensions ascii_decimal (Some ''body{width:600px;height:800px;}'') =
     (Some (lit ''600''), Some (lit ''800''))"
    by (simp add: css_dimensions_def d text_eval)
  have t: \<open>re_sub broken_style_re (fixed_style (lit ''600'') (lit ''800''))
                (if str_in (lit ''<head>'') (lit ''<head lang="en"><body style="width:px; height:px;">'') \<and>
                    \<not> str_in (lit ''name="viewport"'')
                        (lit ''<head lang="en"><body style="width:px; height:px;">'')
                 then replace_first (lit ''<head>'')
                        (lit ''<head>'' @ [10] @ lit ''    '' @ viewport_tag (lit ''600'') (lit ''800''))
                        (lit ''<head lang="en"><body style="width:px; height:px;">'')
                 else lit ''<head lang="en"><body style="width:px; height:px;">'') =
           lit ''<head lang="en"><body style="width:600px; height:800px;">''\<close>
    by (simp add: text_eval)
  have e: \<open>utf8_encode (lit ''<head lang="en"><body style="width:600px; height:800px;">'') =
           Inr ''<head lang="en"><body style="width:600px; height:800px;">''\<close>
    by (rule utf8_encode_ascii) simp
  from viewport_needs_plain_head [OF h1 h2] show ?thesis
    unfolding t e using h1 h2 by auto
qed

subsection \<open>Stylesheet merging\<close>

lemma key_nonempty: "get_css_rule_key r = Some k \<Longrightarrow> k \<noteq> []"
  by (auto simp: get_css_rule_key_def Let_def lit_def split: if_splits option.splits)

lemma decode_values_ignore_ascii: "\<forall>b\<in>set bs. b < 128 \<Longrightarrow> decode_values_ignore bs = bs"
  by (induction bs) (auto simp: utf8_step_def)

lemma utf8_decode_ignore_ascii:
  "\<forall>c\<in>set b. (of_char c :: nat) < 128 \<Longrightarrow> utf8_decode_ignore b = lit b"
  by (simp add: utf8_decode_ignore_def lit_def decode_values_ignore_ascii)

lemmas css_eval = merge_css_text_def merged_rules_def existing_rule_step_def new_rule_step_def
  get_css_rule_key_def font_family_re_def strip_def Let_def

lemma update_entries: "set (AList.update k v al) \<subseteq> insert (k, v) (set al)"
  by (induction al) auto

lemma existing_step_entries: "set (existing_rule_step d r) \<subseteq> set d \<union> keyed r"
  using update_entries [of "the (get_css_rule_key r)" "strip r @ lit ''}''" d]
  by (cases "get_css_rule_key r")
    (auto simp: existing_rule_step_def keyed_def Let_def key_nonempty)

lemma new_step_entries: "set (new_rule_step d r) \<subseteq> set d \<union> keyed r"
  using update_entries [of "the (get_css_rule_key r)" "strip r @ lit ''}''" d]
  by (cases "get_css_rule_key r")
    (auto simp: new_rule_step_def keyed_def Let_def key_nonempty split: option.splits)

lemma existing_fold_entries:
  "set (foldl existing_rule_step d rs) \<subseteq> set d \<union> (\<Union>r\<in>set rs. keyed r)"
proof (induction rs arbitrary: d)
  case Nil
  then show ?case by simp
next
  case (Cons r rs)
  from Cons [of "existing_rule_step d r"] existing_step_entries [of d r]
  show ?case by auto
qed

lemma new_fold_entries:
  "set (foldl new_rule_step d rs) \<subseteq> set d \<union> (\<Union>r\<in>set rs. keyed r)"
proof (induction rs arbitrary: d)
  case Nil
  then show ?case by simp
next
  case (Cons r rs)
  from Cons [of "new_rule_step d r"] new_step_entries [of d r]
  show ?case by auto
qed

lemma merged_entries:
  "set (merged_rules E N) \<subseteq> (\<Union>r\<in>set (split_on 125 E) \<union> set (split_on 125 N). keyed r)"
  using new_fold_entries [of "foldl existing_rule_step [] (split_on 125 E)" "split_on 125 N"]
    existing_fold_entries [of "[]" "split_on 125 E"]
  by (auto simp: merged_rules_def)

lemma keyed_scalar:
  assumes "e \<in> keyed r" "list_all scalar r"
  shows "list_all scalar (snd e)"
proof -
  from assms(1) have e: "snd e = strip r @ lit ''}''"
    by (auto simp: keyed_def split: if_splits option.splits)
  have "list_all scalar (strip r)"
    using set_strip [of r] assms(2) by (auto simp: list_all_iff)
  then show ?thesis by (simp add: e scalar_lit)
qed

lemma scalar_merge_css_text:
  assumes "list_all scalar a" "list_all scalar b"
  shows "list_all scalar (merge_css_text a b)"
proof -
  have v: "list_all scalar (snd e)" if "e \<in> set (merged_rules a b)" for e
  proof -
    from that merged_entries [of a b] obtain r
      where r: "r \<in> set (split_on 125 a) \<union> set (split_on 125 b)" and e: "e \<in> keyed r"
      by blast
    from r have "set r \<subseteq> set a \<or> set r \<subseteq> set b"
      using set_split_on [of r 125 a] set_split_on [of r 125 b] by blast
    with assms have "list_all scalar r" by (auto simp: list_all_iff)
    with e show ?thesis by (rule keyed_scalar)
  qed
  have j: "set (merge_css_text a b) \<subseteq> set [10] \<union> \<Union> (set ` set (map snd (merged_rules a b)))"
    unfolding merge_css_text_def by (rule set_join)
  have "scalar x" if "x \<in> set (merge_css_text a b)" for x
  proof -
    from that j have "x = 10 \<or> (\<exists>e\<in>set (merged_rules a b). x \<in> set (snd e))" by auto
    then show ?thesis
    proof
      assume "x = 10"
      then show ?thesis by (simp add: scalar_def)
    next
      assume "\<exists>e\<in>set (merged_rules a b). x \<in> set (snd e)"
      then obtain e where "e \<in> set (merged_rules a b)" "x \<in> set (snd e)" by blast
      with v [of e] show ?thesis by (simp add: list_all_iff)
    qed
  qed
  then show ?thesis by (simp add: list_all_iff)
qed

lemma merge_css_total: "\<exists>out. merge_css a b = Inr out"
proof -
  have "list_all scalar (utf8_decode_ignore a)" "list_all scalar (utf8_decode_ignore b)"
    unfolding utf8_decode_ignore_def by (rule decode_values_ignore_scalar)+
  then have "list_all scalar (merge_css_text (utf8_decode_ignore a) (utf8_decode_ignore b))"
    by (rule scalar_merge_css_text)
  then show ?thesis unfolding merge_css_def by (rule utf8_encode_scalar)
qed












text \<open>
  Within the stored text there is no comparison: of two rules of one key the later stays,
  also when it is the shorter one.
\<close>

lemma stored_text_keeps_last:
  "merge_css ''a{xxx}a{x}'' ''b{y}'' = Inr (''a{x}'' @ [CHR 0x0A] @ ''b{y}'')"
proof -
  have d: "utf8_decode_ignore ''a{xxx}a{x}'' = lit ''a{xxx}a{x}''" "utf8_decode_ignore ''b{y}'' = lit ''b{y}''"
    by (rule utf8_decode_ignore_ascii, simp)+
  have m: "merge_css_text (lit ''a{xxx}a{x}'') (lit ''b{y}'') = lit (''a{x}'' @ [CHR 0x0A] @ ''b{y}'')"
    by (simp add: css_eval text_eval)
  have e: "utf8_encode (lit (''a{x}'' @ [CHR 0x0A] @ ''b{y}'')) = Inr (''a{x}'' @ [CHR 0x0A] @ ''b{y}'')"
    by (rule utf8_encode_ascii) simp
  show ?thesis by (simp add: merge_css_def d m e del: append.simps)
qed




subsection \<open>Package-document extraction\<close>

lemma cover_href_meta_step: "cover_href (meta_step r m) = cover_href r"
  by (simp add: meta_step_def Let_def)

lemma cover_href_meta: "cover_href (foldl meta_step r ms) = cover_href r"
  by (induction ms arbitrary: r) (simp_all add: cover_href_meta_step)

lemma cover_href_spine_step: "cover_href (spine_step m r x) = cover_href r"
  by (simp add: spine_step_def Let_def)

lemma cover_href_spine: "cover_href (foldl (spine_step m) r xs) = cover_href r"
  by (induction xs arbitrary: r) (simp_all add: cover_href_spine_step)

lemma fst_manifest: "fst (foldl manifest_step st xs) = foldl cover_step (fst st) xs"
  by (induction xs arbitrary: st) (simp_all add: manifest_step_def)

lemma cover_step_sticky: "truthy (cover_href r) \<Longrightarrow> cover_href (cover_step r x) = cover_href r"
  by (simp add: cover_step_def Let_def)

lemma cover_sticky: "truthy (cover_href r) \<Longrightarrow> cover_href (foldl cover_step r xs) = cover_href r"
  by (induction xs arbitrary: r) (simp_all add: cover_step_sticky)

lemma cover_step_no_match:
  "\<not> (truthy (cover_id r) \<and> el_get x (lit ''id'') = cover_id r) \<Longrightarrow>
   \<not> str_in (lit ''cover-image'') (el_get_str x (lit ''properties'')) \<Longrightarrow> cover_step r x = r"
  by (auto simp: cover_step_def Let_def)

lemma cover_no_match:
  "\<forall>x\<in>set xs. \<not> (truthy (cover_id r) \<and> el_get x (lit ''id'') = cover_id r) \<and>
      \<not> str_in (lit ''cover-image'') (el_get_str x (lit ''properties'')) \<Longrightarrow>
   foldl cover_step r xs = r"
  by (induction xs) (simp_all add: cover_step_no_match)

lemma cover_step_match:
  assumes "\<not> truthy (cover_href r)"
    and "(truthy (cover_id r) \<and> el_get x (lit ''id'') = cover_id r) \<or>
         str_in (lit ''cover-image'') (el_get_str x (lit ''properties''))"
    and "el_get x (lit ''href'') = Some h" and "h \<noteq> []"
  shows "cover_href (cover_step r x) = Some h"
  using assms by (auto simp: cover_step_def Let_def)

text \<open>The definitions a concrete tree is evaluated with.\<close>

lemmas xml_eval = example_root_def example_metadata_def example_manifest_def example_item1_def
  example_item2_def opf_tag_def find_opf_def find_child_def el_get_def el_get_str_def lit_def
  extract_from_root_def meta_step_def cover_step_def href_step_def manifest_step_def
  spine_step_def unset_result_def endswith_def

text \<open>
  C4, as stated, gives an id match priority over the cover-image property in the whole
  manifest. The loop is a single pass: in the example the first item has the property, the
  second has the cover id, and the href recorded is the first item's.
\<close>

theorem cover_id_priority_counterexample:
  "cover_id (foldl meta_step unset_result (iter example_metadata)) = Some (lit ''cov'') \<and>
   iter example_manifest = [example_manifest, example_item1, example_item2] \<and>
   el_get example_item1 (lit ''id'') \<noteq> Some (lit ''cov'') \<and>
   el_get example_item2 (lit ''id'') = Some (lit ''cov'') \<and>
   el_get example_item2 (lit ''href'') = Some (lit ''b.jpg'') \<and>
   cover_href (extract_from_root example_root) = Some (lit ''a.jpg'')"
  by (simp add: xml_eval)

lemma no_metadata_unset: "find_opf root ''metadata'' = None \<Longrightarrow> extract_from_root root = unset_result"
  by (simp add: extract_from_root_def)

lemma cover_first_match:
  assumes "find_opf root ''metadata'' = Some metadata"
    and "find_opf root ''manifest'' = Some manifest"
    and "iter manifest = pre @ item # rest"
    and "c = cover_id (foldl meta_step unset_result (iter metadata))"
    and "\<forall>x\<in>set pre. \<not> (truthy c \<and> el_get x (lit ''id'') = c) \<and>
           \<not> str_in (lit ''cover-image'') (el_get_str x (lit ''properties''))"
    and "(truthy c \<and> el_get item (lit ''id'') = c) \<or>
         str_in (lit ''cover-image'') (el_get_str item (lit ''properties''))"
    and "el_get item (lit ''href'') = Some h" and "h \<noteq> []"
  shows "cover_href (extract_from_root root) = Some h"
proof -
  let ?r1 = "foldl meta_step unset_result (iter metadata)"
  have unset: "\<not> truthy (cover_href ?r1)"
    by (simp add: cover_href_meta unset_result_def)
  have pre: "foldl cover_step ?r1 pre = ?r1"
    using assms(4,5) by (intro cover_no_match) simp
  have "cover_href (cover_step ?r1 item) = Some h"
    using unset assms(4,6,7,8) by (intro cover_step_match) simp_all
  then have "cover_href (foldl cover_step (cover_step ?r1 item) rest) = Some h"
    using assms(8) by (simp add: cover_sticky)
  then have m: "cover_href (foldl cover_step ?r1 (iter manifest)) = Some h"
    using pre by (simp add: assms(3))
  show ?thesis
    using assms(1,2) m
    by (simp add: extract_from_root_def Let_def fst_manifest cover_href_spine split: option.splits)
qed

text \<open>
  C4, amended. For a package element with a manifest child: without a metadata child the
  function returns before it reads the manifest, and no href is recorded. With a metadata
  child, the href recorded is that of the first element of the manifest, in document order
  (the order of \<^verbatim>\<open>iter()\<close>, which starts with the manifest element itself), that matches by
  either test (its id is the non-empty cover id that the metadata names, or its properties
  contain \<^verbatim>\<open>cover-image\<close>), when that element has a non-empty href; nothing after it changes
  the value.
\<close>

theorem cover_first_match_wins:
  assumes "find_opf root ''manifest'' = Some manifest"
    and "iter manifest = pre @ item # rest"
    and "c = (case find_opf root ''metadata'' of
                None \<Rightarrow> None
              | Some metadata \<Rightarrow> cover_id (foldl meta_step unset_result (iter metadata)))"
    and "\<forall>x\<in>set pre. \<not> (truthy c \<and> el_get x (lit ''id'') = c) \<and>
           \<not> str_in (lit ''cover-image'') (el_get_str x (lit ''properties''))"
    and "(truthy c \<and> el_get item (lit ''id'') = c) \<or>
         str_in (lit ''cover-image'') (el_get_str item (lit ''properties''))"
    and "el_get item (lit ''href'') = Some h" and "h \<noteq> []"
  shows "cover_href (extract_from_root root) =
           (if find_opf root ''metadata'' = None then None else Some h)"
proof (cases "find_opf root ''metadata''")
  case None
  then show ?thesis by (simp add: no_metadata_unset unset_result_def)
next
  case (Some metadata)
  with assms(3) have c: "c = cover_id (foldl meta_step unset_result (iter metadata))" by simp
  from cover_first_match [OF Some assms(1,2) c assms(4,5,6,7)] Some show ?thesis by simp
qed

theorem cover_first_match_wins_witness:
  "find_opf example_root ''manifest'' = Some example_manifest \<and>
   find_opf example_root ''metadata'' = Some example_metadata \<and>
   cover_id (foldl meta_step unset_result (iter example_metadata)) = Some (lit ''cov'') \<and>
   iter example_manifest = [example_manifest] @ example_item1 # [example_item2] \<and>
   el_get example_manifest (lit ''id'') = None \<and>
   \<not> str_in (lit ''cover-image'') (el_get_str example_manifest (lit ''properties'')) \<and>
   str_in (lit ''cover-image'') (el_get_str example_item1 (lit ''properties'')) \<and>
   el_get example_item1 (lit ''href'') = Some (lit ''a.jpg'') \<and>
   cover_href (extract_from_root example_root) = Some (lit ''a.jpg'') \<and>
   find_opf (Element (opf_tag ''package'') [] None [example_manifest]) ''manifest'' =
     Some example_manifest \<and>
   find_opf (Element (opf_tag ''package'') [] None [example_manifest]) ''metadata'' = None \<and>
   cover_href (extract_from_root (Element (opf_tag ''package'') [] None [example_manifest])) = None"
proof -
  let ?bare = "Element (opf_tag ''package'') [] None [example_manifest]"
  have 1: "find_opf example_root ''manifest'' = Some example_manifest" by (simp add: xml_eval)
  have m: "find_opf example_root ''metadata'' = Some example_metadata" by (simp add: xml_eval)
  have 2: "iter example_manifest = [example_manifest] @ example_item1 # [example_item2]"
    by (simp add: xml_eval)
  have c: "cover_id (foldl meta_step unset_result (iter example_metadata)) = Some (lit ''cov'')"
    by (simp add: xml_eval)
  have 3: "Some (lit ''cov'') = (case find_opf example_root ''metadata'' of
                None \<Rightarrow> None
              | Some metadata \<Rightarrow> cover_id (foldl meta_step unset_result (iter metadata)))"
    by (simp add: m c)
  have i: "el_get example_manifest (lit ''id'') = None"
    "\<not> str_in (lit ''cover-image'') (el_get_str example_manifest (lit ''properties''))"
    by (simp_all add: xml_eval)
  have 4: "\<forall>x\<in>set [example_manifest].
      \<not> (truthy (Some (lit ''cov'')) \<and> el_get x (lit ''id'') = Some (lit ''cov'')) \<and>
      \<not> str_in (lit ''cover-image'') (el_get_str x (lit ''properties''))"
    using i by simp
  have p: "str_in (lit ''cover-image'') (el_get_str example_item1 (lit ''properties''))"
    by (simp add: xml_eval)
  then have 5: "(truthy (Some (lit ''cov'')) \<and> el_get example_item1 (lit ''id'') = Some (lit ''cov'')) \<or>
      str_in (lit ''cover-image'') (el_get_str example_item1 (lit ''properties''))" ..
  have 6: "el_get example_item1 (lit ''href'') = Some (lit ''a.jpg'')" by (simp add: xml_eval)
  have 7: "lit ''a.jpg'' \<noteq> []" by (simp add: lit_def)
  have a: "cover_href (extract_from_root example_root) = Some (lit ''a.jpg'')"
    using cover_first_match_wins [OF 1 2 3 4 5 6 7] m by simp
  have b1: "find_opf ?bare ''manifest'' = Some example_manifest" by (simp add: xml_eval)
  have bm: "find_opf ?bare ''metadata'' = None" by (simp add: xml_eval)
  have b3: "None = (case find_opf ?bare ''metadata'' of
                None \<Rightarrow> None
              | Some metadata \<Rightarrow> cover_id (foldl meta_step unset_result (iter metadata)))"
    by (simp add: bm)
  have b4: "\<forall>x\<in>set [example_manifest].
      \<not> (truthy None \<and> el_get x (lit ''id'') = None) \<and>
      \<not> str_in (lit ''cover-image'') (el_get_str x (lit ''properties''))"
    using i by simp
  from p have b5: "(truthy None \<and> el_get example_item1 (lit ''id'') = None) \<or>
      str_in (lit ''cover-image'') (el_get_str example_item1 (lit ''properties''))" ..
  have b: "cover_href (extract_from_root ?bare) = None"
    using cover_first_match_wins [OF b1 2 b3 b4 b5 6 7] bm by simp
  from 1 m c 2 i p 6 a b1 bm b show ?thesis by simp
qed

text \<open>
  C8. The specification lets no input make the extraction raise. The function catches
  \<^verbatim>\<open>ET.ParseError\<close> only: on a package document that declares an encoding the interpreter
  does not know, the parser raises \<^verbatim>\<open>LookupError\<close>, which leaves the function and ends
  the run.
\<close>

theorem unknown_encoding_raises:
  \<open>extract_opf_metadata example_fromstring ''<?xml version="1.0" encoding="bogus"?><a/>'' =
     Inl LookupError \<and>
   download_epub_in_parts example_env
     \<lparr>files = [[(lit ''content.opf'', ''<?xml version="1.0" encoding="bogus"?><a/>'')]],
      files_in_toc = []\<rparr> no_layout = Inl LookupError\<close>
proof -
  have x: \<open>extract_opf_metadata example_fromstring ''<?xml version="1.0" encoding="bogus"?><a/>'' =
     Inl LookupError\<close>
    by (simp add: extract_opf_metadata_def example_fromstring_def example_opf_def)
  have f: "fromstring example_env = example_fromstring" by (simp add: example_env_def)
  have r: \<open>download_epub_in_parts example_env
     \<lparr>files = [[(lit ''content.opf'', ''<?xml version="1.0" encoding="bogus"?><a/>'')]],
      files_in_toc = []\<rparr> no_layout = Inl LookupError\<close>
    by (simp add: download_epub_in_parts_def merge_fragment_def extract_opf_def namelist_def
        zip_read_def initial_state_def endswith_def lit_def f x)
  from x r show ?thesis by simp
qed

subsection \<open>Fragment merge\<close>

lemma fold_err_total:
  "(\<And>s x. x \<in> set xs \<Longrightarrow> \<exists>s'. f s x = Inr s') \<Longrightarrow> \<exists>s'. fold_err f xs s = Inr s'"
proof (induction xs arbitrary: s)
  case Nil
  then show ?case by simp
next
  case (Cons x xs)
  from Cons.prems [of x s] obtain s1 where "f s x = Inr s1" by auto
  moreover from Cons.IH [of s1] Cons.prems obtain s' where "fold_err f xs s1 = Inr s'" by auto
  ultimately show ?case by simp
qed


lemma name_in_zip: "p \<in> set (namelist z) \<Longrightarrow> \<exists>body. map_of (rev z) p = Some body"
proof -
  assume "p \<in> set (namelist z)"
  then have "p \<in> fst ` set (rev z)" by (simp add: namelist_def)
  then have "map_of (rev z) p \<noteq> None" by (simp add: map_of_eq_None_iff)
  then show ?thesis by auto
qed

lemma repaired_total: "\<exists>c. repaired env st p b = Inr c"
proof (cases "md_rendition_layout (st_metadata st) = Some (lit ''pre-paginated'') \<and>
              truthy (map_of (css_cache st) (css_path_of p))")
  case True
  with fix_page_total [of "isdecimal env" b "map_of (css_cache st) (css_path_of p)"]
  show ?thesis by (simp add: repaired_def Let_def)
next
  case False
  then show ?thesis by (auto simp: repaired_def Let_def)
qed

lemma stored_body_total: "\<exists>c. stored_body env st p b = Inr c"
  using repaired_total [of env st p b] by (simp add: stored_body_def)

lemma file_step_cases:
  assumes "map_of (rev z) p = Some body"
  shows "file_step env toc_index z st p =
    (if excluded p then Inr st
     else if added_files st p = None \<or> length body > the (added_files st p) then
       (case stored_body env st p body of
          Inl e \<Rightarrow> Inl e
        | Inr c \<Rightarrow> Inr (accepted env toc_index st p body c))
     else Inr st)"
  using assms
  by (auto simp: file_step_def should_add_file_def excluded_def zip_read_def file_size_def
      stored_body_def accepted_def split: sum.splits bool.splits)

lemma file_step_total:
  assumes "p \<in> set (namelist z)"
  shows "\<exists>st'. file_step env toc_index z st p = Inr st'"
proof -
  from assms obtain body where b: "map_of (rev z) p = Some body" using name_in_zip by blast
  obtain c where "stored_body env st p body = Inr c" using stored_body_total by blast
  with file_step_cases [OF b] show ?thesis by auto
qed

lemma accepted_frame:
  "css_cache (accepted env t st p b c) = css_cache st"
  "st_metadata (accepted env t st p b c) = st_metadata st"
  "opf_extracted (accepted env t st p b c) = opf_extracted st"
  "st_cover_href (accepted env t st p b c) = st_cover_href st"
  "st_spine_properties (accepted env t st p b c) = st_spine_properties st"
  "added_files (accepted env t st p b c) = (added_files st)(p \<mapsto> length b)"
  by (simp_all add: accepted_def add_page_def Let_def)

lemma accepted_items:
  "\<exists>mt. out_items (accepted env t st p b c) =
     out_items st @ [\<lparr>file_name = p, item_content = c, item_media_type = mt\<rparr>]"
  by (simp add: accepted_def add_page_def Let_def)

lemma file_step_accept:
  assumes "\<not> excluded p" and "map_of (rev z) p = Some body"
    and "added_files st p = None \<or> length body > the (added_files st p)"
  shows "\<exists>st' c mt. file_step env t z st p = Inr st' \<and> stored_body env st p body = Inr c \<and>
           added_files st' = (added_files st)(p \<mapsto> length body) \<and>
           out_items st' = out_items st @ [\<lparr>file_name = p, item_content = c, item_media_type = mt\<rparr>]"
proof -
  obtain c where c: "stored_body env st p body = Inr c" using stored_body_total by blast
  with assms have "file_step env t z st p = Inr (accepted env t st p body c)"
    by (simp add: file_step_cases)
  with c accepted_items [of env t st p body c] show ?thesis
    by (auto simp: accepted_frame)
qed

lemma file_step_reject:
  assumes "map_of (rev z) p = Some body"
    and "excluded p \<or> (added_files st p \<noteq> None \<and> length body \<le> the (added_files st p))"
  shows "file_step env t z st p = Inr st"
  using assms by (auto simp: file_step_cases)

lemma file_step_covered:
  assumes "p \<in> set (namelist z)" and "file_step env t z st p = Inr st'"
  shows "(\<not> excluded p \<longrightarrow> covered st' z p) \<and> (\<forall>q. covered st z q \<longrightarrow> covered st' z q)"
proof -
  from assms(1) obtain body where b: "map_of (rev z) p = Some body" using name_in_zip by blast
  show ?thesis
  proof (cases "\<not> excluded p \<and> (added_files st p = None \<or> length body > the (added_files st p))")
    case True
    then obtain c where "stored_body env st p body = Inr c"
      and "st' = accepted env t st p body c"
      using assms(2) stored_body_total [of env st p body] by (auto simp: file_step_cases [OF b])
    then have a: "added_files st' = (added_files st)(p \<mapsto> length body)"
      by (simp add: accepted_frame)
    have "covered st' z p" by (simp add: covered_def a b)
    moreover have "covered st' z q" if "covered st z q" for q
      using that b by (cases "q = p") (auto simp: covered_def a)
    ultimately show ?thesis by blast
  next
    case False
    then have "excluded p \<or> (added_files st p \<noteq> None \<and> length body \<le> the (added_files st p))"
      by auto
    with b have "file_step env t z st p = Inr st" by (rule file_step_reject)
    with assms(2) have eq: "st' = st" by simp
    from False have "\<not> excluded p \<longrightarrow> covered st z p" by (auto simp: covered_def b)
    with eq show ?thesis by simp
  qed
qed

lemma file_fold_covered:
  assumes "set ps \<subseteq> set (namelist z)" and "fold_err (file_step env t z) ps st = Inr st'"
  shows "(\<forall>p\<in>set ps. \<not> excluded p \<longrightarrow> covered st' z p) \<and> (\<forall>q. covered st z q \<longrightarrow> covered st' z q)"
  using assms
proof (induction ps arbitrary: st)
  case Nil
  then show ?case by simp
next
  case (Cons p ps)
  from Cons.prems(2) obtain s1 where 1: "file_step env t z st p = Inr s1"
    and 2: "fold_err (file_step env t z) ps s1 = Inr st'"
    by (auto split: sum.splits)
  from Cons.prems(1) have p: "p \<in> set (namelist z)" and ps: "set ps \<subseteq> set (namelist z)" by auto
  note a = file_step_covered [OF p 1]
  note b = Cons.IH [OF ps 2]
  from a b show ?case by auto
qed

lemma file_fold_noop:
  assumes "set ps \<subseteq> set (namelist z)" and "\<forall>p\<in>set ps. excluded p \<or> covered st z p"
  shows "fold_err (file_step env t z) ps st = Inr st"
  using assms
proof (induction ps)
  case Nil
  then show ?case by simp
next
  case (Cons p ps)
  from Cons.prems(1) obtain body where b: "map_of (rev z) p = Some body"
    using name_in_zip [of p z] by auto
  from Cons.prems(2) b have "excluded p \<or> (added_files st p \<noteq> None \<and> length body \<le> the (added_files st p))"
    by (auto simp: covered_def)
  with b have "file_step env t z st p = Inr st" by (rule file_step_reject)
  with Cons show ?case by simp
qed

lemma covered_css_cache: "covered (st\<lparr>css_cache := c\<rparr>) z p = covered st z p"
  by (simp add: covered_def)

lemma css_step_total:
  assumes "p \<in> set (namelist z)"
  shows "\<exists>c. css_step z st p = Inr (st\<lparr>css_cache := c\<rparr>)"
proof -
  from assms obtain body where b: "map_of (rev z) p = Some body" using name_in_zip by blast
  have same: "st = st\<lparr>css_cache := css_cache st\<rparr>" by simp
  show ?thesis
  proof (cases "endswith p (lit ''.css'') \<and> body \<noteq> []")
    case False
    with b same show ?thesis by (auto simp: css_step_def zip_read_def intro: exI [of _ "css_cache st"])
  next
    case True
    show ?thesis
    proof (cases "map_of (css_cache st) p")
      case None
      with True b show ?thesis by (auto simp: css_step_def zip_read_def)
    next
      case (Some existing)
      obtain merged where "merge_css existing body = Inr merged" using merge_css_total by blast
      with True b Some show ?thesis by (auto simp: css_step_def zip_read_def)
    qed
  qed
qed

lemma css_fold_total:
  assumes "set ps \<subseteq> set (namelist z)"
  shows "\<exists>c. fold_err (css_step z) ps st = Inr (st\<lparr>css_cache := c\<rparr>)"
  using assms
proof (induction ps arbitrary: st)
  case Nil
  have "st = st\<lparr>css_cache := css_cache st\<rparr>" by simp
  then show ?case by (auto intro: exI [of _ "css_cache st"])
next
  case (Cons p ps)
  then obtain c1 where 1: "css_step z st p = Inr (st\<lparr>css_cache := c1\<rparr>)"
    using css_step_total [of p z st] by auto
  from Cons obtain c2 where "fold_err (css_step z) ps (st\<lparr>css_cache := c1\<rparr>) =
      Inr (st\<lparr>css_cache := c1\<rparr>\<lparr>css_cache := c2\<rparr>)"
    by (metis set_subset_Cons subset_trans)
  with 1 show ?case by auto
qed

lemma file_fold_frame:
  assumes "set ps \<subseteq> set (namelist z)" and "fold_err (file_step env t z) ps st = Inr st'"
  shows "css_cache st' = css_cache st \<and> st_metadata st' = st_metadata st \<and>
         opf_extracted st' = opf_extracted st \<and> st_cover_href st' = st_cover_href st \<and>
         st_spine_properties st' = st_spine_properties st"
  using assms
proof (induction ps arbitrary: st)
  case Nil
  then show ?case by simp
next
  case (Cons p ps)
  from Cons.prems(2) obtain s1 where 1: "file_step env t z st p = Inr s1"
    and 2: "fold_err (file_step env t z) ps s1 = Inr st'"
    by (auto split: sum.splits)
  from Cons.prems(1) obtain body where b: "map_of (rev z) p = Some body"
    using name_in_zip [of p z] by auto
  from 1 have "css_cache s1 = css_cache st \<and> st_metadata s1 = st_metadata st \<and>
         opf_extracted s1 = opf_extracted st \<and> st_cover_href s1 = st_cover_href st \<and>
         st_spine_properties s1 = st_spine_properties st"
    by (auto simp: file_step_cases [OF b] accepted_frame split: if_splits sum.splits)
  moreover from Cons.prems(1) have "set ps \<subseteq> set (namelist z)" by simp
  note Cons.IH [OF this 2]
  ultimately show ?case by simp
qed

lemma extract_opf_flag:
  assumes "extract_opf env st z = Inr sa"
  shows "(opf_extracted st \<longrightarrow> sa = st) \<and>
         (\<not> opf_extracted sa \<longrightarrow> sa = st \<and>
            List.find (\<lambda>filename. endswith filename (lit ''.opf'')) (namelist z) = None)"
  using assms
  by (auto simp: extract_opf_def store_opf_metadata_def Let_def split: if_splits option.splits sum.splits)

lemma extract_opf_skip:
  "opf_extracted st \<or> List.find (\<lambda>filename. endswith filename (lit ''.opf'')) (namelist z) = None \<Longrightarrow>
   extract_opf env st z = Inr st"
  by (auto simp: extract_opf_def)


















text \<open>The definitions a concrete run is evaluated with.\<close>

lemmas merge_eval = download_epub_in_parts_def merge_fragment_def extract_opf_def css_step_def
  file_step_def should_add_file_def zip_read_def file_size_def namelist_def add_page_def
  repaired_def is_in_toc_def is_nav_def spine_props_for_def initial_state_def css_items_def
  css_path_of_def replace_all_def endswith_def basename_def example_env_def ascii_lower_def
  no_layout_def fixed_layout_def page_item_def example_merged_def excluded_def stored_body_def
  lit_def Let_def

subsection \<open>Runs\<close>

text \<open>
  C7. The specification keeps two \<^verbatim>\<open>@font-face\<close> rules with different font families apart.
  The pattern \<^verbatim>\<open>font-family:\s*["\']?([^"\';}]+)\<close> ends the family at the first quote of
  either kind, also inside a name in double quotes: the families \<^verbatim>\<open>Bob's Sans\<close> and
  \<^verbatim>\<open>Bob's Serif\<close> both give the key \<^verbatim>\<open>@font-face:Bob\<close>, and of two fragments that bring
  one each for the same stylesheet the package keeps a single rule.
\<close>

theorem font_families_collide:
  \<open>get_css_rule_key (lit ''@font-face{font-family:"Bob's Sans"'') = Some (lit ''@font-face:Bob'') \<and>
   get_css_rule_key (lit ''@font-face{font-family:"Bob's Serif"'') = Some (lit ''@font-face:Bob'') \<and>
   download_epub_in_parts example_env
     \<lparr>files = [[(lit ''f.css'', ''@font-face{font-family:"Bob's Sans"}'')],
               [(lit ''f.css'', ''@font-face{font-family:"Bob's Serif"}'')]],
      files_in_toc = []\<rparr> no_layout =
   Inr \<lparr>pkg_manifest =
          [\<lparr>file_name = lit ''f.css'', item_content = ''@font-face{font-family:"Bob's Serif"}'',
            item_media_type = Some (lit ''text/css'')\<rparr>],
        pkg_spine = [], pkg_toc = [], pkg_metadata = no_layout\<rparr>\<close>
proof -
  have k: \<open>get_css_rule_key (lit ''@font-face{font-family:"Bob's Sans"'') = Some (lit ''@font-face:Bob'')\<close>
    \<open>get_css_rule_key (lit ''@font-face{font-family:"Bob's Serif"'') = Some (lit ''@font-face:Bob'')\<close>
    by (simp_all add: css_eval text_eval)
  have d: \<open>utf8_decode_ignore ''@font-face{font-family:"Bob's Sans"}'' =
            lit ''@font-face{font-family:"Bob's Sans"}''\<close>
    \<open>utf8_decode_ignore ''@font-face{font-family:"Bob's Serif"}'' =
            lit ''@font-face{font-family:"Bob's Serif"}''\<close>
    by (rule utf8_decode_ignore_ascii, simp)+
  have m: \<open>merge_css_text (lit ''@font-face{font-family:"Bob's Sans"}'')
             (lit ''@font-face{font-family:"Bob's Serif"}'') =
           lit ''@font-face{font-family:"Bob's Serif"}''\<close>
    by (simp add: css_eval text_eval)
  have e: \<open>utf8_encode (lit ''@font-face{font-family:"Bob's Serif"}'') =
           Inr ''@font-face{font-family:"Bob's Serif"}''\<close>
    by (rule utf8_encode_ascii) simp
  have c: \<open>merge_css ''@font-face{font-family:"Bob's Sans"}'' ''@font-face{font-family:"Bob's Serif"}'' =
           Inr ''@font-face{font-family:"Bob's Serif"}''\<close>
    by (simp add: merge_css_def d m e)
  have r: \<open>download_epub_in_parts example_env
     \<lparr>files = [[(lit ''f.css'', ''@font-face{font-family:"Bob's Sans"}'')],
               [(lit ''f.css'', ''@font-face{font-family:"Bob's Serif"}'')]],
      files_in_toc = []\<rparr> no_layout =
   Inr \<lparr>pkg_manifest =
          [\<lparr>file_name = lit ''f.css'', item_content = ''@font-face{font-family:"Bob's Serif"}'',
            item_media_type = Some (lit ''text/css'')\<rparr>],
        pkg_spine = [], pkg_toc = [], pkg_metadata = no_layout\<rparr>\<close>
    by (simp add: merge_eval c)
  from k r show ?thesis by simp
qed

text \<open>
  C2. The specification replaces the stored body of a path when a longer one arrives, so
  that one body is kept for a path. The function records the new size and adds the new
  body to the book, and the body stored before stays there: after a zero-byte page and
  then the page in full, the book holds both, and the spine lists the page twice.
\<close>

theorem empty_body_not_replaced:
  "download_epub_in_parts example_env
     \<lparr>files = [[(lit ''ch1.xhtml'', [])], [(lit ''ch1.xhtml'', ''<p/>'')]], files_in_toc = []\<rparr>
     no_layout =
   Inr \<lparr>pkg_manifest = [page_item ''ch1.xhtml'' [], page_item ''ch1.xhtml'' ''<p/>''],
        pkg_spine = [(page_item ''ch1.xhtml'' [], None), (page_item ''ch1.xhtml'' ''<p/>'', None)],
        pkg_toc = [], pkg_metadata = no_layout\<rparr>"
  by (simp add: merge_eval)




text \<open>
  C6. When the merge of a fragment has returned, the merge of the same fragment into the
  state it left returns too, and the sizes recorded, the items of the book, its spine, its
  table of contents and the metadata are the same: nothing is counted twice and no file is
  taken again. The cache of stylesheets is another store, and is merged again.
\<close>

theorem merge_twice:
  assumes "merge_fragment env toc_index st zipfile = Inr st1"
  shows "\<exists>st2. merge_fragment env toc_index st1 zipfile = Inr st2 \<and>
           added_files st2 = added_files st1 \<and> out_items st2 = out_items st1 \<and>
           out_spine st2 = out_spine st1 \<and> out_toc st2 = out_toc st1 \<and>
           st_metadata st2 = st_metadata st1"
proof -
  let ?ns = "namelist zipfile"
  from assms obtain sa sb where a: "extract_opf env st zipfile = Inr sa"
    and b: "fold_err (css_step zipfile) ?ns sa = Inr sb"
    and c: "fold_err (file_step env toc_index zipfile) ?ns sb = Inr st1"
    by (auto simp: merge_fragment_def split: sum.splits)
  obtain cb where sb: "sb = sa\<lparr>css_cache := cb\<rparr>"
    using css_fold_total [of ?ns zipfile sa] b by auto
  have frame: "opf_extracted st1 = opf_extracted sb" using file_fold_frame [OF _ c] by simp
  have "opf_extracted st1 \<or>
        List.find (\<lambda>filename. endswith filename (lit ''.opf'')) ?ns = None"
    using extract_opf_flag [OF a] frame sb by auto
  then have 1: "extract_opf env st1 zipfile = Inr st1" by (rule extract_opf_skip)
  obtain c2 where 2: "fold_err (css_step zipfile) ?ns st1 = Inr (st1\<lparr>css_cache := c2\<rparr>)"
    using css_fold_total [of ?ns zipfile st1] by auto
  have "\<forall>p\<in>set ?ns. \<not> excluded p \<longrightarrow> covered st1 zipfile p"
    using file_fold_covered [OF _ c] by simp
  then have "\<forall>p\<in>set ?ns. excluded p \<or> covered (st1\<lparr>css_cache := c2\<rparr>) zipfile p"
    by (auto simp: covered_css_cache)
  then have 3: "fold_err (file_step env toc_index zipfile) ?ns (st1\<lparr>css_cache := c2\<rparr>) =
      Inr (st1\<lparr>css_cache := c2\<rparr>)"
    by (intro file_fold_noop) simp_all
  from 1 2 3 have "merge_fragment env toc_index st1 zipfile = Inr (st1\<lparr>css_cache := c2\<rparr>)"
    by (simp add: merge_fragment_def)
  then show ?thesis by simp
qed

theorem merge_twice_witness:
  "merge_fragment example_env [] (initial_state no_layout)
     [(lit ''ch1.xhtml'', ''<p/>''), (lit ''ch1.css'', ''p{}'')] = Inr example_merged \<and>
   (\<exists>st2. merge_fragment example_env [] example_merged
            [(lit ''ch1.xhtml'', ''<p/>''), (lit ''ch1.css'', ''p{}'')] = Inr st2 \<and>
          added_files st2 = added_files example_merged \<and>
          out_items st2 = out_items example_merged \<and>
          out_spine st2 = out_spine example_merged \<and>
          out_toc st2 = out_toc example_merged \<and>
          st_metadata st2 = st_metadata example_merged)"
proof -
  have h: "merge_fragment example_env [] (initial_state no_layout)
     [(lit ''ch1.xhtml'', ''<p/>''), (lit ''ch1.css'', ''p{}'')] = Inr example_merged"
    by (simp add: merge_eval eval_nat_numeral)
  from merge_twice [OF h] h show ?thesis by simp
qed

subsection \<open>A run without fragments\<close>

text \<open>
  C1. The specification lets a run with zero fragments end in an empty package. The
  function divides one by the number of fragments before it does anything else, so with
  no fragment it raises \<^verbatim>\<open>ZeroDivisionError\<close> and builds no package.
\<close>

theorem zero_fragments_raise:
  "download_epub_in_parts env \<lparr>files = [], files_in_toc = toc_index\<rparr> md = Inl ZeroDivisionError"
  by (simp add: download_epub_in_parts_def)

end
